theory Spec2Isabelle
  imports Complex_Main "HOL-Library.Multiset"
begin

section \<open>Python values, errors and text\<close>

text \<open>
  The program is one Python script, \<^verbatim>\<open>generate_property_files.py\<close>. Its values are modelled
  as follows. A Python \<^verbatim>\<open>str\<close> is a \<open>string\<close> whose characters are the code points
  0..255 (Latin-1 covers every literal of the script, including the accented Mexican state
  names). A Python \<^verbatim>\<open>float\<close> is a \<open>rat\<close>: float arithmetic is idealised as exact
  rational arithmetic. A raise is a value \<open>Inl e\<close> of a sum type.
\<close>

datatype error = IndexError | KeyError | ValueError | UniquenessException

text \<open>The values handed to \<^verbatim>\<open>json.dump\<close>: a dict is an association list in insertion order.\<close>

datatype json =
    JInt int
  | JFloat rat
  | JStr string
  | JList "json list"
  | JDict "(string \<times> json) list"

definition bind_result :: "error + 'a \<Rightarrow> ('a \<Rightarrow> error + 'b) \<Rightarrow> error + 'b" where
  "bind_result m k = (case m of Inl e \<Rightarrow> Inl e | Inr x \<Rightarrow> k x)"

text \<open>\<^verbatim>\<open>str.lower()\<close> on code points below 256: A..Z and the accented capitals move by 32.\<close>

definition lower_char :: "char \<Rightarrow> char" where
  "lower_char c =
     (let n = (of_char c :: nat)
      in if (65 \<le> n \<and> n \<le> 90) \<or> (192 \<le> n \<and> n \<le> 222 \<and> n \<noteq> 215)
         then char_of (n + 32) else c)"

definition lower :: "string \<Rightarrow> string" where
  "lower s = map lower_char s"

text \<open>\<^verbatim>\<open>s.replace(old, new)\<close> for a one-character \<^verbatim>\<open>old\<close>.\<close>

definition replace_char :: "char \<Rightarrow> string \<Rightarrow> string \<Rightarrow> string" where
  "replace_char old new s = concat (map (\<lambda>c. if c = old then new else [c]) s)"

text \<open>\<^verbatim>\<open>sep.join(xs)\<close>.\<close>

fun join :: "string \<Rightarrow> string list \<Rightarrow> string" where
  "join sep [] = []"
| "join sep [x] = x"
| "join sep (x # y # ys) = x @ sep @ join sep (y # ys)"

text \<open>\<^verbatim>\<open>sub in s\<close> on strings: \<^verbatim>\<open>sub\<close> occurs as a contiguous block of \<^verbatim>\<open>s\<close>.\<close>

fun starts_with :: "string \<Rightarrow> string \<Rightarrow> bool" where
  "starts_with [] s = True"
| "starts_with (a # sub) [] = False"
| "starts_with (a # sub) (b # s) = (a = b \<and> starts_with sub s)"

fun contains :: "string \<Rightarrow> string \<Rightarrow> bool" where
  "contains sub [] = (sub = [])"
| "contains sub (b # s) = (starts_with sub (b # s) \<or> contains sub s)"

text \<open>\<^verbatim>\<open>str(n)\<close> for a non-negative integer: its decimal digits.\<close>

fun decimal :: "nat \<Rightarrow> string" where
  "decimal n =
     (if n < 10 then [char_of (48 + n)]
      else decimal (n div 10) @ [char_of (48 + n mod 10)])"

text \<open>
  \<^verbatim>\<open>round(x, 2)\<close>: the nearest multiple of 1/100, a tie going to the even one (Python rounds
  half to even).
\<close>

definition round_half_even :: "rat \<Rightarrow> int" where
  "round_half_even q =
     (let f = \<lfloor>q\<rfloor>; d = q - of_int f
      in if d < 1 / 2 then f
         else if 1 / 2 < d then f + 1
         else if even f then f else f + 1)"

definition round2 :: "rat \<Rightarrow> rat" where
  "round2 x = of_int (round_half_even (x * 100)) / 100"

section \<open>The two seeded generators and the hash order\<close>

text \<open>
  \<^verbatim>\<open>random.seed(1234)\<close> and \<^verbatim>\<open>Faker.seed(1234)\<close> fix two generators whose code is not part of
  the script. Each is modelled by the sequence of answers it gives from the seed on: the
  \<open>i\<close>-th call reads entry \<open>i\<close>, and the rest of the run continues with the shifted
  sequence. An entry of \<open>rng\<close> is the raw number behind one call of \<^verbatim>\<open>random\<close>; the
  library's functions reduce it to the range they promise. An entry of \<open>faker\<close> is the
  text the next Faker provider call returns, for the locale it is asked in.
\<close>

type_synonym rng = "nat \<Rightarrow> nat"

definition advance :: "nat \<Rightarrow> (nat \<Rightarrow> 'a) \<Rightarrow> (nat \<Rightarrow> 'a)" where
  "advance k s = (\<lambda>i. s (i + k))"

definition randbelow :: "nat \<Rightarrow> rng \<Rightarrow> nat \<times> rng" where
  "randbelow n g = (g 0 mod n, advance 1 g)"

text \<open>\<^verbatim>\<open>random.random()\<close>: a multiple of \<open>2^-53\<close> in \<open>[0, 1)\<close>.\<close>

definition random_unit :: "rng \<Rightarrow> rat \<times> rng" where
  "random_unit g = (of_nat (g 0 mod 2 ^ 53) / 2 ^ 53, advance 1 g)"

text \<open>\<^verbatim>\<open>random.choice(seq)\<close>: \<^verbatim>\<open>seq[randbelow(len(seq))]\<close>, IndexError on an empty sequence.\<close>

definition choice :: "'a list \<Rightarrow> rng \<Rightarrow> error + ('a \<times> rng)" where
  "choice xs g =
     (if xs = [] then Inl IndexError
      else (let (j, g') = randbelow (length xs) g in Inr (xs ! j, g')))"

text \<open>\<^verbatim>\<open>random.randint(a, b)\<close>: \<^verbatim>\<open>a + randbelow(b - a + 1)\<close>, ValueError on an empty range.\<close>

definition randint :: "int \<Rightarrow> int \<Rightarrow> rng \<Rightarrow> error + (int \<times> rng)" where
  "randint a b g =
     (if b < a then Inl ValueError
      else (let (j, g') = randbelow (nat (b - a + 1)) g in Inr (a + int j, g')))"

text \<open>\<^verbatim>\<open>random.uniform(a, b)\<close>: \<^verbatim>\<open>a + (b - a) * random()\<close>.\<close>

definition uniform :: "rat \<Rightarrow> rat \<Rightarrow> rng \<Rightarrow> rat \<times> rng" where
  "uniform a b g = (let (u, g') = random_unit g in (a + (b - a) * u, g'))"

text \<open>
  \<^verbatim>\<open>random.sample(population, k)\<close>, the pool branch the library takes for a population of
  at most 21 elements (every population of the script has at most 5): \<open>k\<close> times, pick a
  position of the pool, take its element, and move the pool's last element there.
\<close>

fun sample_pool :: "'a list \<Rightarrow> nat \<Rightarrow> rng \<Rightarrow> 'a list \<times> rng" where
  "sample_pool pool 0 g = ([], g)"
| "sample_pool pool (Suc k) g =
     (let (j, g') = randbelow (length pool) g;
          (rest, g'') = sample_pool (butlast (pool[j := last pool])) k g'
      in (pool ! j # rest, g''))"

definition sample :: "'a list \<Rightarrow> nat \<Rightarrow> rng \<Rightarrow> error + ('a list \<times> rng)" where
  "sample population k g =
     (if length population < k then Inl ValueError else Inr (sample_pool population k g))"

text \<open>
  \<^verbatim>\<open>random.shuffle(x)\<close>: for \<open>i\<close> from \<open>len(x) - 1\<close> down to 1, swap \<open>x[i]\<close> with
  \<open>x[randbelow(i + 1)]\<close>.
\<close>

fun shuffle_from :: "nat \<Rightarrow> 'a list \<Rightarrow> rng \<Rightarrow> 'a list \<times> rng" where
  "shuffle_from 0 xs g = (xs, g)"
| "shuffle_from (Suc i) xs g =
     (let (j, g') = randbelow (Suc (Suc i)) g
      in shuffle_from i (xs[Suc i := xs ! j, j := xs ! Suc i]) g')"

definition shuffle :: "'a list \<Rightarrow> rng \<Rightarrow> 'a list \<times> rng" where
  "shuffle xs g = shuffle_from (length xs - 1) xs g"

datatype faker_locale = en_US | en_CA | es_MX

type_synonym faker = "nat \<Rightarrow> faker_locale \<Rightarrow> string"

text \<open>One provider call (\<^verbatim>\<open>company()\<close>, \<^verbatim>\<open>city()\<close>, \<^verbatim>\<open>address()\<close>, \<^verbatim>\<open>phone_number()\<close>).\<close>

definition provider :: "faker_locale \<Rightarrow> faker \<Rightarrow> string \<times> faker" where
  "provider l f = (f 0 l, advance 1 f)"

text \<open>
  \<^verbatim>\<open>fake.unique.company()\<close>: Faker's unique proxy remembers what it returned and asks the
  provider again, a bounded number of times, until the answer is new; it raises
  UniquenessException when the attempts are used up.
\<close>

definition unique_attempts :: nat where
  "unique_attempts = 1000"

fun unique_retry :: "nat \<Rightarrow> string list \<Rightarrow> faker \<Rightarrow> error + (string \<times> faker)" where
  "unique_retry 0 seen f = Inl UniquenessException"
| "unique_retry (Suc k) seen f =
     (let (c, f') = provider en_US f
      in if c \<in> set seen then unique_retry k seen f' else Inr (c, f'))"

definition unique_company :: "string list \<Rightarrow> faker \<Rightarrow> error + (string \<times> string list \<times> faker)" where
  "unique_company seen f =
     (case unique_retry unique_attempts seen f of
        Inl e \<Rightarrow> Inl e
      | Inr (c, f') \<Rightarrow> Inr (c, c # seen, f'))"

text \<open>
  A Python \<^verbatim>\<open>set\<close> of strings is kept as the list of its elements in insertion order.
  \<^verbatim>\<open>list(names)\<close> enumerates the set in hash-table order, and the hash of a \<^verbatim>\<open>str\<close> is
  salted anew in every Python process, so the enumeration is an input of the run that
  neither seed fixes. It is given as a list of picks: each pick takes one of the elements
  not yet enumerated; when the picks run out the rest follows in insertion order. Every
  enumeration of the set is reached by some picks.
\<close>

definition set_add :: "'a \<Rightarrow> 'a list \<Rightarrow> 'a list" where
  "set_add x xs = (if x \<in> set xs then xs else xs @ [x])"

primrec list_of_set :: "nat list \<Rightarrow> 'a list \<Rightarrow> 'a list" where
  "list_of_set [] xs = xs"
| "list_of_set (p # ps) xs =
     (if xs = [] then []
      else (let i = p mod length xs
            in xs ! i # list_of_set ps (take i xs @ drop (Suc i) xs)))"

section \<open>The reference tables\<close>

definition locations :: "string list" where
  "locations =
  [''Beachfront'', ''Mountain View'', ''Downtown'', ''Desert'', ''Oceanfront'',
   ''Historic District'', ''Lakeside'', ''Countryside'', ''City Center'', ''Riverside'',
   ''Business District'', ''Wine Country'', ''Government District'', ''Tech Hub'', ''Plains'',
   ''Valley'', ''Forest'', ''Industrial District'', ''Gulf Coast'', ''Bay Area'',
   ''Ranch Land'', ''Wilderness'', ''Tropical Beach'', ''Financial District'', ''Coastal'',
   ''Suburban'', ''University District'', ''Ski Resort'', ''Riverfront'', ''Island'']"

definition location_amenities :: "(string \<times> string list) list" where
  "location_amenities =
  [(''Beachfront'', [''private beach access'', ''ocean views'', ''beachside dining'', ''water sports equipment'', ''sunset terraces'']),
   (''Mountain View'', [''hiking trails'', ''mountain vistas'', ''fireplaces'', ''ski access'', ''nature walks'']),
   (''Downtown'', [''city skyline views'', ''rooftop bar'', ''business center'', ''metro access'', ''shopping nearby'']),
   (''Desert'', [''desert landscapes'', ''stargazing decks'', ''spa services'', ''golf course'', ''pool oasis'']),
   (''Oceanfront'', [''panoramic ocean views'', ''private balconies'', ''seafood restaurant'', ''marina access'', ''lighthouse views'']),
   (''Historic District'', [''heritage architecture'', ''antique furnishings'', ''guided tours'', ''period details'', ''cobblestone streets'']),
   (''Lakeside'', [''lake views'', ''fishing pier'', ''boat rentals'', ''lakefront dining'', ''swimming area'']),
   (''Countryside'', [''rolling hills'', ''farm-to-table dining'', ''horseback riding'', ''wine tasting'', ''pastoral views'']),
   (''City Center'', [''urban sophistication'', ''fine dining'', ''theater district'', ''shopping centers'', ''nightlife'']),
   (''Riverside'', [''river views'', ''kayak rentals'', ''riverside trails'', ''fishing spots'', ''peaceful setting'']),
   (''Business District'', [''conference facilities'', ''executive services'', ''high-speed internet'', ''corporate rates'', ''meeting rooms'']),
   (''Wine Country'', [''vineyard views'', ''wine tastings'', ''cellar tours'', ''gourmet dining'', ''harvest experiences'']),
   (''Government District'', [''historic landmarks'', ''monument views'', ''political tours'', ''security features'', ''diplomatic services'']),
   (''Tech Hub'', [''high-tech amenities'', ''fast WiFi'', ''co-working spaces'', ''innovation center'', ''startup networking'']),
   (''Plains'', [''wide open spaces'', ''prairie views'', ''outdoor activities'', ''peaceful atmosphere'', ''starry nights'']),
   (''Valley'', [''valley panoramas'', ''scenic drives'', ''hiking paths'', ''fresh air'', ''mountain backdrops'']),
   (''Forest'', [''forest trails'', ''wildlife viewing'', ''cabin atmosphere'', ''outdoor adventures'', ''nature immersion'']),
   (''Industrial District'', [''modern design'', ''converted warehouses'', ''urban loft style'', ''art galleries'', ''trendy restaurants'']),
   (''Gulf Coast'', [''gulf waters'', ''seafood cuisine'', ''coastal charm'', ''fishing charters'', ''beach activities'']),
   (''Bay Area'', [''bay views'', ''maritime culture'', ''sailing opportunities'', ''waterfront dining'', ''harbor tours'']),
   (''Ranch Land'', [''ranch experiences'', ''horseback riding'', ''cattle drives'', ''cowboy culture'', ''wide open spaces'']),
   (''Wilderness'', [''untouched nature'', ''wildlife encounters'', ''adventure activities'', ''eco-tours'', ''camping options'']),
   (''Tropical Beach'', [''white sand beaches'', ''palm trees'', ''tropical drinks'', ''snorkeling'', ''paradise setting'']),
   (''Financial District'', [''luxury accommodations'', ''business services'', ''upscale dining'', ''premium location'', ''executive floors'']),
   (''Coastal'', [''coastal breezes'', ''seaside charm'', ''lighthouse tours'', ''beach walks'', ''maritime history'']),
   (''Suburban'', [''family-friendly'', ''quiet neighborhoods'', ''local attractions'', ''easy access'', ''comfortable setting'']),
   (''University District'', [''academic atmosphere'', ''student discounts'', ''cultural events'', ''library access'', ''campus tours'']),
   (''Ski Resort'', [''ski slopes'', ''winter sports'', ''alpine dining'', ''mountain lodges'', ''snow activities'']),
   (''Riverfront'', [''riverfront location'', ''water activities'', ''scenic beauty'', ''peaceful setting'', ''nature walks'']),
   (''Island'', [''island paradise'', ''tropical setting'', ''water activities'', ''secluded beaches'', ''resort atmosphere''])]"

definition property_type_features :: "(string \<times> string list) list" where
  "property_type_features =
  [(''Resort'', [''luxury amenities'', ''spa services'', ''multiple restaurants'', ''recreational facilities'', ''concierge service'']),
   (''Hotel'', [''comfortable rooms'', ''room service'', ''front desk'', ''housekeeping'', ''guest services'']),
   (''Lodge'', [''rustic charm'', ''cozy atmosphere'', ''outdoor activities'', ''lodge dining'', ''nature setting'']),
   (''Inn'', [''intimate setting'', ''personalized service'', ''local charm'', ''historic character'', ''boutique experience'']),
   (''Suites'', [''spacious accommodations'', ''separate living areas'', ''kitchen facilities'', ''extended stay options'', ''business amenities'']),
   (''Manor'', [''elegant architecture'', ''luxurious interiors'', ''historic grandeur'', ''fine dining'', ''exclusive atmosphere'']),
   (''Retreat'', [''peaceful environment'', ''wellness programs'', ''meditation spaces'', ''healthy cuisine'', ''rejuvenation focus'']),
   (''Cabin'', [''rustic accommodations'', ''nature immersion'', ''outdoor adventures'', ''cozy interiors'', ''campfire areas''])]"

definition us_states :: "string list" where
  "us_states =
  [''Alabama'', ''Alaska'', ''Arizona'', ''Arkansas'', ''California'', ''Colorado'',
   ''Connecticut'', ''Delaware'', ''Florida'', ''Georgia'', ''Hawaii'', ''Idaho'',
   ''Illinois'', ''Indiana'', ''Iowa'', ''Kansas'', ''Kentucky'', ''Louisiana'', ''Maine'',
   ''Maryland'', ''Massachusetts'', ''Michigan'', ''Minnesota'', ''Mississippi'', ''Missouri'',
   ''Montana'', ''Nebraska'', ''Nevada'', ''New Hampshire'', ''New Jersey'', ''New Mexico'',
   ''New York'', ''North Carolina'', ''North Dakota'', ''Ohio'', ''Oklahoma'', ''Oregon'',
   ''Pennsylvania'', ''Rhode Island'', ''South Carolina'', ''South Dakota'', ''Tennessee'',
   ''Texas'', ''Utah'', ''Vermont'', ''Virginia'', ''Washington'', ''West Virginia'',
   ''Wisconsin'', ''Wyoming'']"

definition canadian_provinces :: "string list" where
  "canadian_provinces =
  [''Alberta'', ''British Columbia'', ''Manitoba'', ''New Brunswick'',
   ''Newfoundland and Labrador'', ''Northwest Territories'', ''Nova Scotia'', ''Nunavut'',
   ''Ontario'', ''Prince Edward Island'', ''Quebec'', ''Saskatchewan'', ''Yukon'']"

definition mexican_states :: "string list" where
  "mexican_states =
  [''Aguascalientes'', ''Baja California'', ''Baja California Sur'', ''Campeche'', ''Chiapas'',
   ''Chihuahua'', ''Coahuila'', ''Colima'', ''Durango'', ''Guanajuato'', ''Guerrero'',
   ''Hidalgo'', ''Jalisco'', (''M'' @ [CHR 0xE9] @ ''xico''),
   (''Michoac'' @ [CHR 0xE1] @ ''n''), ''Morelos'', ''Nayarit'',
   (''Nuevo Le'' @ [CHR 0xF3] @ ''n''), ''Oaxaca'', ''Puebla'',
   (''Quer'' @ [CHR 0xE9] @ ''taro''), ''Quintana Roo'', (''San Luis Potos'' @ [CHR 0xED]),
   ''Sinaloa'', ''Sonora'', ''Tabasco'', ''Tamaulipas'', ''Tlaxcala'', ''Veracruz'',
   (''Yucat'' @ [CHR 0xE1] @ ''n''), ''Zacatecas'']"

definition cancellation_policies :: "string list" where
  "cancellation_policies =
  [''Full refund if cancelled 48 hours prior'', ''50% if cancelled within 48 hours'',
   ''No penalty if cancelled 72 hours prior'', ''20% penalty if cancelled within 48 hours'',
   ''25% penalty if cancelled within 24 hours'', ''30% penalty if cancelled within 72 hours'',
   ''40% penalty if cancelled within 24 hours'', ''10% penalty if cancelled within 24 hours'',
   ''15% penalty if cancelled within 24 hours'']"

text \<open>\<^verbatim>\<open>countries_states\<close> and \<^verbatim>\<open>countries = list(countries_states.keys())\<close>.\<close>

definition countries_states :: "(string \<times> string list) list" where
  "countries_states =
  [(''USA'', us_states), (''Canada'', canadian_provinces), (''Mexico'', mexican_states)]"

definition countries :: "string list" where
  "countries = map fst countries_states"

text \<open>\<^verbatim>\<open>d.get(key, default)\<close> and \<^verbatim>\<open>xs[i]\<close> for \<open>i\<close> from a \<^verbatim>\<open>range\<close>.\<close>

definition dict_get :: "('k \<times> 'v) list \<Rightarrow> 'k \<Rightarrow> 'v \<Rightarrow> 'v" where
  "dict_get d k dflt = (case map_of d k of None \<Rightarrow> dflt | Some v \<Rightarrow> v)"

definition index :: "'a list \<Rightarrow> nat \<Rightarrow> error + 'a" where
  "index xs i = (if i < length xs then Inr (xs ! i) else Inl IndexError)"

definition str_int :: "int \<Rightarrow> string" where
  "str_int n = (if n < 0 then CHR ''-'' # decimal (nat (- n)) else decimal (nat n))"

section \<open>Description composition\<close>

text \<open>The first key of \<^verbatim>\<open>property_type_features\<close>, in the dict's order, that occurs in the name.\<close>

definition extract_property_type :: "string \<Rightarrow> string" where
  "extract_property_type property_name =
     (case find (\<lambda>ptype. contains ptype property_name) (map fst property_type_features) of
        None \<Rightarrow> ''Hotel''
      | Some ptype \<Rightarrow> if ptype = [] then ''Hotel'' else ptype)"

definition opening_lines :: "string \<Rightarrow> string \<Rightarrow> string list" where
  "opening_lines property_name location =
  [''Discover the perfect blend of comfort and luxury at '' @ property_name @ ''.'',
   ''Experience exceptional hospitality at '' @ property_name @ ''.'',
   ''Welcome to '' @ property_name @ '', where comfort meets elegance.'',
   ''Nestled in a prime '' @ lower location @ '' location, '' @ property_name
     @ '' offers an unforgettable experience.'',
   property_name @ '' provides the ideal escape for discerning travelers.'']"

definition location_descriptions :: "(string \<times> string) list" where
  "location_descriptions =
  [(''Beachfront'', ''steps away from pristine sandy beaches''),
   (''Mountain View'', ''surrounded by majestic mountain peaks''),
   (''Downtown'', ''in the heart of the bustling city center''),
   (''Desert'', ''amidst stunning desert landscapes''),
   (''Oceanfront'', ''with breathtaking ocean vistas''),
   (''Historic District'', ''steeped in rich cultural heritage''),
   (''Lakeside'', ''overlooking tranquil lake waters''),
   (''Countryside'', ''set in picturesque rural surroundings''),
   (''City Center'', ''at the pulse of urban excitement''),
   (''Riverside'', ''along the peaceful riverbank''),
   (''Wine Country'', ''surrounded by rolling vineyards''),
   (''Ski Resort'', ''at the base of world-class ski slopes''),
   (''Island'', ''on a secluded tropical island'')]"

definition country_closings :: "(string \<times> string) list" where
  "country_closings =
  [(''USA'', ''making it the perfect choice for your American adventure.''),
   (''Canada'', ''providing an authentic Canadian hospitality experience.''),
   (''Mexico'', ''offering you a taste of Mexico'' @ [CHR 0x27]
      @ ''s warm hospitality and vibrant culture.'')]"

definition feature_text :: "string list \<Rightarrow> string" where
  "feature_text all_features =
     (if 3 \<le> length all_features
      then ''Enjoy '' @ all_features ! 0 @ '', '' @ all_features ! 1 @ '', and '' @ all_features ! 2
           @ (if 3 < length all_features
              then '', along with '' @ join '', '' (drop 3 all_features) else [])
      else ''Experience '' @ join '' and '' all_features)"

definition generate_property_description ::
  "string \<Rightarrow> string \<Rightarrow> string \<Rightarrow> rng \<Rightarrow> error + (string \<times> rng)" where
  "generate_property_description property_name location country g =
     (let property_type = extract_property_type property_name;
          amenities = dict_get location_amenities location
            [''scenic views'', ''comfortable accommodations'', ''friendly service''];
          type_features = dict_get property_type_features property_type
            [''quality accommodations'', ''excellent service'']
      in bind_result (choice (opening_lines property_name location) g) (\<lambda>(opening, g1).
         let location_desc = dict_get location_descriptions location
               (''in a beautiful '' @ lower location @ '' setting'')
         in bind_result (sample amenities (min 4 (length amenities)) g1)
              (\<lambda>(selected_amenities, g2).
            bind_result (sample type_features (min 3 (length type_features)) g2)
              (\<lambda>(selected_features, g3).
            let (all_features, g4) = shuffle (selected_amenities @ selected_features) g3;
                closing = dict_get country_closings country
                  ''ensuring a memorable stay for every guest.''
            in Inr (opening @ '' Located '' @ location_desc
                      @ '', our property combines modern comfort with local charm. ''
                      @ feature_text all_features @ '', '' @ closing,
                    g4)))))"

section \<open>Names, emails and locale data\<close>

definition name_suffixes :: "string list" where
  "name_suffixes =
  [''Resort'', ''Hotel'', ''Lodge'', ''Inn'', ''Suites'', ''Manor'', ''Retreat'', ''Cabin'']"

text \<open>
  The \<^verbatim>\<open>while len(names) < n\<close> loop of \<^verbatim>\<open>unique_property_names\<close>. \<open>seen\<close> is the memory of
  \<^verbatim>\<open>fake.unique\<close>.
\<close>

function names_loop ::
  "nat \<Rightarrow> string list \<Rightarrow> string list \<Rightarrow> rng \<Rightarrow> faker
     \<Rightarrow> error + (string list \<times> rng \<times> faker)" where
  "names_loop n names seen g f =
     (if length names < n
      then (case unique_company seen f of
              Inl e \<Rightarrow> Inl e
            | Inr (c, seen', f') \<Rightarrow>
                (case choice name_suffixes g of
                   Inl e \<Rightarrow> Inl e
                 | Inr (s, g') \<Rightarrow> names_loop n (set_add (c @ '' '' @ s) names) seen' g' f'))
      else Inr (names, g, f))"
  by pat_completeness auto

definition unique_property_names ::
  "nat \<Rightarrow> nat list \<Rightarrow> rng \<Rightarrow> faker \<Rightarrow> error + (string list \<times> rng \<times> faker)" where
  "unique_property_names n hash_order g f =
     (case names_loop n [] [] g f of
        Inl e \<Rightarrow> Inl e
      | Inr (names, g', f') \<Rightarrow> Inr (list_of_set hash_order names, g', f'))"

definition email_slug :: "string \<Rightarrow> string" where
  "email_slug name =
     replace_char CHR '','' []
       (replace_char CHR ''-'' []
          (replace_char CHR ''&'' ''and''
             (replace_char CHR '' '' [] (lower name))))"

fun unique_emails :: "string list \<Rightarrow> string list" where
  "unique_emails [] = []"
| "unique_emails (name # names) = (''info@'' @ email_slug name @ ''.com'') # unique_emails names"

definition get_country_specific_data :: "string \<Rightarrow> error + (faker_locale \<times> string list)" where
  "get_country_specific_data country =
     (let fake_locale =
            (if country = ''USA'' then en_US
             else if country = ''Canada'' then en_CA
             else if country = ''Mexico'' then es_MX
             else en_US)
      in case map_of countries_states country of
           None \<Rightarrow> Inl KeyError
         | Some states \<Rightarrow> Inr (fake_locale, states))"

section \<open>The generation loop and the output\<close>

text \<open>One pass of the body of \<^verbatim>\<open>for i in range(1000)\<close>: the record it appends.\<close>

definition make_record ::
  "nat \<Rightarrow> string list \<Rightarrow> string list \<Rightarrow> rng \<Rightarrow> faker \<Rightarrow> error + (json \<times> rng \<times> faker)" where
  "make_record i property_names property_emails g f =
     bind_result (choice countries g) (\<lambda>(country, g1).
     bind_result (get_country_specific_data country) (\<lambda>(fake_locale, states).
     bind_result (choice states g1) (\<lambda>(state, g2).
     let (city, f1) = provider fake_locale f;
         (address_lines, f2) = provider fake_locale f1;
         address = replace_char (CHR 0x0A) '', '' address_lines;
         (phone, f3) = provider fake_locale f2
     in bind_result (choice locations g2) (\<lambda>(location, g3).
        bind_result (randint 2 30 g3) (\<lambda>(miles, g4).
        let (airport_city, f4) = provider fake_locale f3;
            airport_distance =
              str_int miles @ '' miles from '' @ airport_city @ '' International Airport'';
            (x, g5) = uniform 75 750 g4;
            price = round2 x;
            (y, g6) = uniform (1 / 10) (2 / 10) g5;
            commission = round2 (price * y)
        in bind_result (choice cancellation_policies g6) (\<lambda>(cancellation, g7).
           bind_result (index property_names i) (\<lambda>property_name.
           bind_result (generate_property_description property_name location country g7)
             (\<lambda>(description, g8).
           bind_result (index property_emails i) (\<lambda>property_email.
           Inr (JDict
                  [(''id'', JInt (int i + 1)),
                   (''propertyName'', JStr property_name),
                   (''propertyDescription'', JStr description),
                   (''propertyLocation'', JStr location),
                   (''propertyCity'', JStr city),
                   (''propertyState'', JStr state),
                   (''propertyCountry'', JStr country),
                   (''propertyAddress'', JStr address),
                   (''propertyPhoneNumber'', JStr phone),
                   (''propertyEmailAddress'', JStr property_email),
                   (''propertyAirportProximity'', JStr airport_distance),
                   (''propertyPricePerNight'', JFloat price),
                   (''propertyCommissionAmount'', JFloat commission),
                   (''propertyCancellationPenalty'', JStr cancellation)],
                g8, f4))))))))))"

fun properties_loop ::
  "nat list \<Rightarrow> string list \<Rightarrow> string list \<Rightarrow> json list \<Rightarrow> rng \<Rightarrow> faker
     \<Rightarrow> error + (json list \<times> rng \<times> faker)" where
  "properties_loop [] property_names property_emails properties g f = Inr (properties, g, f)"
| "properties_loop (i # rest) property_names property_emails properties g f =
     (case make_record i property_names property_emails g f of
        Inl e \<Rightarrow> Inl e
      | Inr (r, g', f') \<Rightarrow>
          properties_loop rest property_names property_emails (properties @ [r]) g' f')"

text \<open>
  The whole script: the names, the emails, the 1000 records, and the document handed to
  \<^verbatim>\<open>json.dump(data, f, indent=2)\<close> for the file \<^verbatim>\<open>propertyFiles.json\<close>. The result is the
  file's path and the document; the text \<^verbatim>\<open>json.dump\<close> makes of a document is the library's.
  \<open>g\<close> and \<open>f\<close> are the answers of the two generators seeded with 1234; \<open>hash_order\<close> is
  the enumeration order of the name set in this process. The closing \<^verbatim>\<open>print\<close> statements
  (counts per country and a sample description, on standard output) are left out.
\<close>

definition main :: "nat list \<Rightarrow> rng \<Rightarrow> faker \<Rightarrow> error + (string \<times> json)" where
  "main hash_order g f =
     (case unique_property_names 1000 hash_order g f of
        Inl e \<Rightarrow> Inl e
      | Inr (property_names, g1, f1) \<Rightarrow>
          (let property_emails = unique_emails property_names
           in case properties_loop [0..<1000] property_names property_emails [] g1 f1 of
                Inl e \<Rightarrow> Inl e
              | Inr (properties, g2, f2) \<Rightarrow>
                  Inr (''propertyFiles.json'', JDict [(''properties'', JList properties)])))"

text \<open>Reading the output back: the records of a run, and one field of a record.\<close>

definition records_of :: "error + (string \<times> json) \<Rightarrow> json list" where
  "records_of out =
     (case out of
        Inr (path, JDict [(key, JList rs)]) \<Rightarrow> rs
      | _ \<Rightarrow> [])"

definition field :: "string \<Rightarrow> json \<Rightarrow> json option" where
  "field key r = (case r of JDict kvs \<Rightarrow> map_of kvs key | _ \<Rightarrow> None)"

text \<open>
  The email derivation in the specification's words, character by character: of the
  lower-cased name, a space is dropped, \<^verbatim>\<open>&\<close> becomes \<^verbatim>\<open>and\<close>, \<^verbatim>\<open>-\<close> and \<^verbatim>\<open>,\<close> are dropped,
  every other character is kept; \<^verbatim>\<open>info@\<close> goes in front and \<^verbatim>\<open>.com\<close> behind.
\<close>

definition email_char :: "char \<Rightarrow> string" where
  "email_char c =
     (if c = CHR '' '' then []
      else if c = CHR ''&'' then ''and''
      else if c = CHR ''-'' \<or> c = CHR '','' then []
      else [c])"

definition derived_email :: "string \<Rightarrow> string" where
  "derived_email name = ''info@'' @ concat (map email_char (lower name)) @ ''.com''"

text \<open>The JSON type of a value, as a reader of the file sees it.\<close>

datatype json_type = TInteger | TFloat | TString | TArray | TObject

fun json_type_of :: "json \<Rightarrow> json_type" where
  "json_type_of (JInt n) = TInteger"
| "json_type_of (JFloat x) = TFloat"
| "json_type_of (JStr s) = TString"
| "json_type_of (JList xs) = TArray"
| "json_type_of (JDict kvs) = TObject"

section \<open>Example runs\<close>

text \<open>
  Answers of the two generators used to exercise the theorems below: a \<^verbatim>\<open>random\<close> whose raw
  numbers are all 0, and a Faker whose \<open>i\<close>-th answer is \<open>i + 1\<close> letters x (so its
  company names never repeat).
\<close>

definition demo_rng :: rng where
  "demo_rng = (\<lambda>i. 0)"

definition demo_faker :: faker where
  "demo_faker = (\<lambda>i l. replicate (Suc i) CHR ''x'')"


text \<open>
  A \<^verbatim>\<open>random\<close> whose raw numbers are 0 but for call 1004, the price draw of the first
  record (the 1000 names take calls 0..999, one each, when no company repeats).
\<close>

definition edge_rng :: rng where
  "edge_rng = (\<lambda>i. if i = 1004 then 400320000000 else 0)"

section \<open>Facts about the generators\<close>

lemma advance_0 [simp]: "advance 0 s = s"
  by (simp add: advance_def)

lemma advance_advance [simp]: "advance a (advance b s) = advance (a + b) s"
  by (simp add: advance_def add.assoc)

lemma advance_apply: "advance k s i = s (i + k)"
  by (simp add: advance_def)

lemma choice_Inr: "choice xs g = Inr (x, g') \<Longrightarrow> x \<in> set xs \<and> g' = advance 1 g"
  by (auto simp: choice_def randbelow_def split: if_splits)

lemma choice_nonempty: "xs \<noteq> [] \<Longrightarrow> choice xs g = Inr (xs ! (g 0 mod length xs), advance 1 g)"
  by (simp add: choice_def randbelow_def)

lemma unique_retry_fresh: "unique_retry k seen f = Inr (c, f') \<Longrightarrow> c \<notin> set seen"
  by (induction k arbitrary: f) (auto simp: provider_def split: if_splits)

lemma unique_company_fresh:
  "unique_company seen f = Inr (c, seen', f') \<Longrightarrow> c \<notin> set seen \<and> seen' = c # seen"
  by (auto simp: unique_company_def split: sum.splits dest: unique_retry_fresh)

lemma split_at_last_sep:
  assumes "a @ x # b = a' @ x # b'" and "x \<notin> set b" and "x \<notin> set b'"
  shows "a = a' \<and> b = b'"
  using assms
  by (auto simp: append_eq_append_conv2 append_eq_Cons_conv Cons_eq_append_conv)

lemma suffix_no_space: "s \<in> set name_suffixes \<Longrightarrow> CHR '' '' \<notin> set s"
  by (auto simp: name_suffixes_def)

lemma name_company_inj:
  assumes "c @ '' '' @ s = c' @ '' '' @ s'"
    and "s \<in> set name_suffixes" and "s' \<in> set name_suffixes"
  shows "c = c' \<and> s = s'"
  using split_at_last_sep [of c "CHR '' ''" s c' s'] assms suffix_no_space by simp

termination names_loop
proof (relation "measure (\<lambda>(n, names, seen, g, f). (n - length names)
          + card {x \<in> set names. \<forall>c\<in>set seen. \<forall>s\<in>set name_suffixes. x \<noteq> c @ '' '' @ s})",
       goal_cases)
  case 1
  show ?case by simp
next
  case (2 n names seen g f x2 c y seen' f' x2a s g')
  from 2 have uc: "unique_company seen f = Inr (c, seen', f')" by auto
  from 2 have ch: "choice name_suffixes g = Inr (s, g')" by auto
  from uc have fresh: "c \<notin> set seen" and seen': "seen' = c # seen"
    using unique_company_fresh by blast+
  from choice_Inr [OF ch] have s: "s \<in> set name_suffixes"
    by simp
  let ?x = "c @ '' '' @ s"
  let ?B = "\<lambda>ns sn. {x \<in> set ns. \<forall>c\<in>set sn. \<forall>s\<in>set name_suffixes. x \<noteq> c @ '' '' @ s}"
  have fin: "finite (?B names seen)" by simp
  show ?case
  proof (cases "?x \<in> set names")
    case True
    have inB: "?x \<in> ?B names seen"
    proof -
      have "\<forall>c'\<in>set seen. \<forall>s'\<in>set name_suffixes. ?x \<noteq> c' @ '' '' @ s'"
        using name_company_inj [OF _ s] fresh by blast
      with True show ?thesis by simp
    qed
    have notin: "?x \<notin> ?B names seen'"
      using s seen' by auto
    have sub: "?B names seen' \<subseteq> ?B names seen"
      using seen' by auto
    have "?B names seen' \<subset> ?B names seen"
      using inB notin sub by blast
    then have "card (?B names seen') < card (?B names seen)"
      using fin by (rule psubset_card_mono [rotated])
    with True show ?thesis
      by (simp add: set_add_def)
  next
    case False
    have sub: "?B (names @ [?x]) seen' \<subseteq> ?B names seen"
      using s seen' by auto
    have "card (?B (names @ [?x]) seen') \<le> card (?B names seen)"
      using fin sub by (rule card_mono)
    with False 2(1) show ?thesis
      by (simp add: set_add_def)
  qed
qed

lemma randbelow_less: "0 < n \<Longrightarrow> fst (randbelow n g) < n"
  by (simp add: randbelow_def)

lemma mset_pool_remove:
  assumes "j < length pool"
  shows "mset (butlast (pool[j := last pool])) = mset pool - {#pool ! j#}"
proof (cases pool rule: rev_cases)
  case Nil
  with assms show ?thesis by simp
next
  case (snoc ys z)
  show ?thesis
  proof (cases "j < length ys")
    case True
    then show ?thesis
      using snoc by (simp add: list_update_append nth_append mset_update)
  next
    case False
    with assms snoc have "j = length ys" by simp
    then show ?thesis
      using snoc by simp
  qed
qed

lemma sample_pool_mset:
  "k \<le> length pool \<Longrightarrow>
     mset (fst (sample_pool pool k g)) \<subseteq># mset pool \<and> length (fst (sample_pool pool k g)) = k"
proof (induction k arbitrary: pool g)
  case 0
  show ?case by simp
next
  case (Suc k)
  define j where "j = g 0 mod length pool"
  from Suc.prems have ne: "pool \<noteq> []" by auto
  then have j: "j < length pool" by (simp add: j_def)
  let ?pool' = "butlast (pool[j := last pool])"
  have len: "k \<le> length ?pool'" using Suc.prems by simp
  have m: "mset ?pool' = mset pool - {#pool ! j#}" using j by (rule mset_pool_remove)
  from Suc.IH [OF len, of "advance 1 g"]
  have ih: "mset (fst (sample_pool ?pool' k (advance 1 g))) \<subseteq># mset pool - {#pool ! j#}"
    and l: "length (fst (sample_pool ?pool' k (advance 1 g))) = k"
    using m by simp_all
  have "pool ! j \<in># mset pool" using j by simp
  with ih have "add_mset (pool ! j) (mset (fst (sample_pool ?pool' k (advance 1 g)))) \<subseteq># mset pool"
    by (metis insert_DiffM mset_subset_eq_add_mset_cancel)
  with l show ?case
    by (simp add: randbelow_def j_def case_prod_beta)
qed

lemma sample_pool_rng: "snd (sample_pool pool k g) = advance k g"
  by (induction k arbitrary: pool g) (simp_all add: randbelow_def case_prod_beta)

lemma shuffle_from_mset: "i < length xs \<Longrightarrow> mset (fst (shuffle_from i xs g)) = mset xs"
proof (induction i arbitrary: xs g)
  case 0
  show ?case by simp
next
  case (Suc i)
  define j where "j = g 0 mod Suc (Suc i)"
  have "j < Suc (Suc i)" by (simp add: j_def)
  with Suc.prems have j: "j < length xs" by simp
  let ?ys = "xs[Suc i := xs ! j, j := xs ! Suc i]"
  have "mset ?ys = mset xs" using j Suc.prems by (simp add: mset_swap)
  moreover have "i < length ?ys" using Suc.prems by simp
  ultimately show ?case
    using Suc.IH [of ?ys "advance 1 g"] by (simp add: randbelow_def j_def)
qed

lemma shuffle_from_rng: "snd (shuffle_from i xs g) = advance i g"
  by (induction i arbitrary: xs g) (simp_all add: randbelow_def case_prod_beta)

lemma shuffle_mset: "mset (fst (shuffle xs g)) = mset xs"
  by (cases "xs = []") (simp_all add: shuffle_def shuffle_from_mset)

lemma list_of_set_mset: "mset (list_of_set ps xs) = mset xs"
proof (induction ps arbitrary: xs)
  case Nil
  show ?case by simp
next
  case (Cons p ps)
  show ?case
  proof (cases "xs = []")
    case True
    then show ?thesis by simp
  next
    case False
    define i where "i = p mod length xs"
    from False have i: "i < length xs" by (simp add: i_def)
    have "mset xs = mset (take i xs @ xs ! i # drop (Suc i) xs)"
      using i by (simp add: id_take_nth_drop [symmetric])
    then show ?thesis
      using False Cons.IH [of "take i xs @ drop (Suc i) xs"] by (simp add: i_def Let_def)
  qed
qed

lemma list_of_set_distinct: "distinct (list_of_set ps xs) = distinct xs"
  by (metis list_of_set_mset mset_eq_imp_distinct_iff)

lemma list_of_set_length: "length (list_of_set ps xs) = length xs"
  by (metis list_of_set_mset size_mset)

lemma list_of_set_reaches: "mset ys = mset xs \<Longrightarrow> \<exists>ps. list_of_set ps xs = ys"
proof (induction ys arbitrary: xs)
  case Nil
  then have "list_of_set [] xs = []" by simp
  then show ?case by blast
next
  case (Cons y ys)
  from Cons.prems have "y \<in> set xs"
    by (metis list.set_intros(1) set_mset_mset)
  then obtain i where i: "i < length xs" "xs ! i = y"
    by (auto simp: in_set_conv_nth)
  let ?xs' = "take i xs @ drop (Suc i) xs"
  have "mset xs = add_mset y (mset ?xs')"
    using i by (metis id_take_nth_drop mset.simps(2) mset_append union_mset_add_mset_right)
  with Cons.prems have "mset ys = mset ?xs'" by simp
  from Cons.IH [OF this] obtain ps where ps: "list_of_set ps ?xs' = ys" by blast
  from i have "xs \<noteq> []" by auto
  with i ps have "list_of_set (i # ps) xs = y # ys" by (simp add: Let_def)
  then show ?case by blast
qed

lemma set_add_distinct: "distinct xs \<Longrightarrow> distinct (set_add x xs)"
  by (simp add: set_add_def)

lemma set_add_length: "length xs < n \<Longrightarrow> length (set_add x xs) \<le> n"
  by (simp add: set_add_def)

declare names_loop.simps [simp del]

lemma names_loop_distinct:
  "names_loop n names seen g f = Inr (ns, g', f') \<Longrightarrow> distinct names \<Longrightarrow> length names \<le> n
     \<Longrightarrow> distinct ns \<and> length ns = n"
proof (induction n names seen g f rule: names_loop.induct)
  case (1 n names seen g f)
  show ?case
  proof (cases "length names < n")
    case False
    with "1.prems" show ?thesis
      by (simp add: names_loop.simps [of n names])
  next
    case True
    from "1.prems"(1) True obtain c seen' f1 s g1 where
      uc: "unique_company seen f = Inr (c, seen', f1)" and
      ch: "choice name_suffixes g = Inr (s, g1)" and
      rec: "names_loop n (set_add (c @ '' '' @ s) names) seen' g1 f1 = Inr (ns, g', f')"
      by (auto simp: names_loop.simps [of n names] split: sum.splits)
    show ?thesis
      using "1.IH" [OF True uc refl refl ch refl rec] "1.prems"(2) True
      by (simp add: set_add_distinct set_add_length)
  qed
qed

lemma unique_property_names_distinct:
  assumes "unique_property_names n hash_order g f = Inr (ns, g', f')"
  shows "distinct ns \<and> length ns = n"
proof -
  from assms obtain names where
    l: "names_loop n [] [] g f = Inr (names, g', f')" and ns: "ns = list_of_set hash_order names"
    by (auto simp: unique_property_names_def split: sum.splits)
  from names_loop_distinct [OF l] have "distinct names \<and> length names = n" by simp
  with ns show ?thesis
    by (simp add: list_of_set_distinct list_of_set_length)
qed

section \<open>Facts about the tables and the description\<close>

lemma countries_eq: "countries = [''USA'', ''Canada'', ''Mexico'']"
  by (simp add: countries_def countries_states_def)

lemma location_amenities_five:
  "location \<in> set locations \<Longrightarrow>
     \<exists>amenities. map_of location_amenities location = Some amenities \<and> length amenities = 5"
  by (auto simp: locations_def location_amenities_def)

lemma property_type_features_five:
  "ptype \<in> set (map fst property_type_features) \<Longrightarrow>
     \<exists>features. map_of property_type_features ptype = Some features \<and> length features = 5"
  by (auto simp: property_type_features_def)

lemma extract_property_type_key:
  "extract_property_type property_name \<in> set (map fst property_type_features)"
proof (cases "find (\<lambda>ptype. contains ptype property_name) (map fst property_type_features)")
  case None
  then show ?thesis
    by (simp add: extract_property_type_def property_type_features_def)
next
  case (Some p)
  then have p: "p \<in> set (map fst property_type_features)"
    by (auto simp: find_Some_iff)
  then have "p \<noteq> []"
    by (auto simp: property_type_features_def)
  with Some p show ?thesis
    by (simp add: extract_property_type_def)
qed

lemma sample_Inr:
  "k \<le> length xs \<Longrightarrow>
     \<exists>ys. sample xs k g = Inr (ys, advance k g) \<and> mset ys \<subseteq># mset xs \<and> length ys = k"
  using sample_pool_mset [of k xs g] sample_pool_rng [of xs k g]
  by (auto simp: sample_def prod_eq_iff)

lemma shuffle_eq: "\<exists>ys. shuffle xs g = (ys, advance (length xs - 1) g) \<and> mset ys = mset xs"
  using shuffle_mset [of xs g] shuffle_from_rng [of "length xs - 1" xs g]
  by (auto simp: shuffle_def prod_eq_iff)

lemma description_shape:
  fixes property_name location country :: string and g :: rng
  defines "amenities \<equiv> dict_get location_amenities location
             [''scenic views'', ''comfortable accommodations'', ''friendly service'']"
  defines "features \<equiv> dict_get property_type_features (extract_property_type property_name)
             [''quality accommodations'', ''excellent service'']"
  shows "\<exists>opening sa sf all_features g'.
           generate_property_description property_name location country g =
             Inr (opening @ '' Located ''
                    @ dict_get location_descriptions location
                        (''in a beautiful '' @ lower location @ '' setting'')
                    @ '', our property combines modern comfort with local charm. ''
                    @ feature_text all_features @ '', ''
                    @ dict_get country_closings country
                        ''ensuring a memorable stay for every guest.'', g')
         \<and> opening \<in> set (opening_lines property_name location)
         \<and> mset sa \<subseteq># mset amenities \<and> length sa = min 4 (length amenities)
         \<and> mset sf \<subseteq># mset features \<and> length sf = min 3 (length features)
         \<and> mset all_features = mset sa + mset sf"
proof -
  have ne: "opening_lines property_name location \<noteq> []"
    by (simp add: opening_lines_def)
  define opn where
    "opn = opening_lines property_name location ! (g 0 mod length (opening_lines property_name location))"
  have op: "choice (opening_lines property_name location) g = Inr (opn, advance 1 g)"
    using ne by (simp add: choice_nonempty opn_def)
  have op_in: "opn \<in> set (opening_lines property_name location)"
    using choice_Inr [OF op] by simp
  obtain sa g2 where sa: "sample amenities (min 4 (length amenities)) (advance 1 g) = Inr (sa, g2)"
      "mset sa \<subseteq># mset amenities" "length sa = min 4 (length amenities)"
    using sample_Inr [of "min 4 (length amenities)" amenities "advance 1 g"] by auto
  obtain sf g3 where sf: "sample features (min 3 (length features)) g2 = Inr (sf, g3)"
      "mset sf \<subseteq># mset features" "length sf = min 3 (length features)"
    using sample_Inr [of "min 3 (length features)" features g2] by auto
  obtain af g' where af: "shuffle (sa @ sf) g3 = (af, g')" "mset af = mset (sa @ sf)"
    using shuffle_eq [of "sa @ sf" g3] by blast
  have "generate_property_description property_name location country g =
             Inr (opn @ '' Located ''
                    @ dict_get location_descriptions location
                        (''in a beautiful '' @ lower location @ '' setting'')
                    @ '', our property combines modern comfort with local charm. ''
                    @ feature_text af @ '', ''
                    @ dict_get country_closings country
                        ''ensuring a memorable stay for every guest.'', g')"
    unfolding generate_property_description_def Let_def
    using op sa(1) sf(1) af(1)
    by (simp add: bind_result_def amenities_def [symmetric] features_def [symmetric])
  with op_in sa(2,3) sf(2,3) af(2) show ?thesis
    by auto
qed

section \<open>One record\<close>

lemma country_data:
  "k < 3 \<Longrightarrow>
     get_country_specific_data (countries ! k) =
       Inr ([en_US, en_CA, es_MX] ! k, snd (countries_states ! k))"
  by (auto simp: less_Suc_eq numeral_3_eq_3 get_country_specific_data_def countries_def
        countries_states_def)

lemma states_nonempty: "k < 3 \<Longrightarrow> snd (countries_states ! k) \<noteq> []"
  by (auto simp: less_Suc_eq numeral_3_eq_3 countries_states_def us_states_def
        canadian_provinces_def mexican_states_def)

lemma length_countries: "length countries = 3"
  by (simp add: countries_eq)

lemma length_locations: "length locations = 30"
  by (simp add: locations_def)

lemma locations_nonempty: "locations \<noteq> []"
  by (simp add: locations_def)

lemma cancellation_policies_nonempty: "cancellation_policies \<noteq> []"
  by (simp add: cancellation_policies_def)

lemma length_cancellation_policies: "length cancellation_policies = 9"
  by (simp add: cancellation_policies_def)

lemma choice_at:
  "xs \<noteq> [] \<Longrightarrow> choice xs (advance n g) = Inr (xs ! (g n mod length xs), advance (Suc n) g)"
  by (simp add: choice_def randbelow_def advance_def)

lemma randint_at:
  "a \<le> b \<Longrightarrow>
     randint a b (advance n g) = Inr (a + int (g n mod nat (b - a + 1)), advance (Suc n) g)"
  by (simp add: randint_def randbelow_def advance_def)

lemma uniform_at:
  "uniform a b (advance n g) = (a + (b - a) * (of_nat (g n mod 2 ^ 53) / 2 ^ 53), advance (Suc n) g)"
  by (simp add: uniform_def random_unit_def advance_def)

lemma provider_at: "provider l (advance n f) = (f n l, advance (Suc n) f)"
  by (simp add: provider_def advance_def)

lemma make_record_eq:
  fixes g :: rng and f :: faker
  defines "k \<equiv> g 0 mod 3"
  defines "states \<equiv> snd (countries_states ! k)"
  defines "l \<equiv> [en_US, en_CA, es_MX] ! k"
  defines "price \<equiv> round2 (75 + 675 * (of_nat (g 4 mod 2 ^ 53) / 2 ^ 53))"
  shows "make_record i property_names property_emails g f =
     (if i < length property_names
      then (case generate_property_description (property_names ! i)
                   (locations ! (g 2 mod 30)) (countries ! k) (advance 7 g) of
              Inl e \<Rightarrow> Inl e
            | Inr (description, g8) \<Rightarrow>
                if i < length property_emails
                then Inr (JDict
                  [(''id'', JInt (int i + 1)),
                   (''propertyName'', JStr (property_names ! i)),
                   (''propertyDescription'', JStr description),
                   (''propertyLocation'', JStr (locations ! (g 2 mod 30))),
                   (''propertyCity'', JStr (f 0 l)),
                   (''propertyState'', JStr (states ! (g 1 mod length states))),
                   (''propertyCountry'', JStr (countries ! k)),
                   (''propertyAddress'', JStr (replace_char (CHR 0x0A) '', '' (f 1 l))),
                   (''propertyPhoneNumber'', JStr (f 2 l)),
                   (''propertyEmailAddress'', JStr (property_emails ! i)),
                   (''propertyAirportProximity'',
                      JStr (str_int (2 + int (g 3 mod 29)) @ '' miles from '' @ f 3 l
                              @ '' International Airport'')),
                   (''propertyPricePerNight'', JFloat price),
                   (''propertyCommissionAmount'',
                      JFloat (round2 (price * (1 / 10 + 1 / 10 * (of_nat (g 5 mod 2 ^ 53) / 2 ^ 53))))),
                   (''propertyCancellationPenalty'', JStr (cancellation_policies ! (g 6 mod 9)))],
                  g8, advance 4 f)
                else Inl IndexError)
      else Inl IndexError)"
proof -
  have k: "k < 3" by (simp add: k_def)
  have c: "choice countries g = Inr (countries ! k, advance (Suc 0) g)"
    using choice_at [of countries 0 g] by (simp add: countries_eq k_def)
  have d: "get_country_specific_data (countries ! k) = Inr (l, states)"
    using country_data [OF k] by (simp add: l_def states_def)
  have s: "choice states (advance (Suc 0) g) = Inr (states ! (g 1 mod length states), advance 2 g)"
    using states_nonempty [OF k] choice_at [of states 1 g] by (simp add: states_def numeral_2_eq_2)
  have lo: "choice locations (advance 2 g) = Inr (locations ! (g 2 mod 30), advance 3 g)"
    using choice_at [OF locations_nonempty, of 2 g] by (simp add: length_locations)
  have ri: "randint 2 30 (advance 3 g) = Inr (2 + int (g 3 mod 29), advance 4 g)"
    using randint_at [of 2 30 3 g] by simp
  have u1: "uniform 75 750 (advance 4 g) = (75 + 675 * (of_nat (g 4 mod 2 ^ 53) / 2 ^ 53), advance 5 g)"
    using uniform_at [of 75 750 4 g] by simp
  have u2: "uniform (1 / 10) (2 / 10) (advance 5 g)
              = (1 / 10 + 1 / 10 * (of_nat (g 5 mod 2 ^ 53) / 2 ^ 53), advance 6 g)"
    using uniform_at [of "1 / 10" "2 / 10" 5 g] by simp
  have ca: "choice cancellation_policies (advance 6 g)
              = Inr (cancellation_policies ! (g 6 mod 9), advance 7 g)"
    using choice_at [OF cancellation_policies_nonempty, of 6 g]
    by (simp add: length_cancellation_policies)
  have p0: "provider l f = (f 0 l, advance (Suc 0) f)"
    using provider_at [of l 0 f] by simp
  have p1: "provider l (advance (Suc 0) f) = (f 1 l, advance 2 f)"
    using provider_at [of l 1 f] by (simp add: numeral_2_eq_2)
  have p2: "provider l (advance 2 f) = (f 2 l, advance 3 f)"
    using provider_at [of l 2 f] by simp
  have p3: "provider l (advance 3 f) = (f 3 l, advance 4 f)"
    using provider_at [of l 3 f] by simp
  show ?thesis
    unfolding make_record_def bind_result_def Let_def
    apply (simp only: c d s lo ri u1 u2 ca p0 p1 p2 p3 sum.case prod.case)
    apply (simp add: index_def price_def split: sum.splits)
    done
qed

section \<open>The loop and the whole run\<close>

lemma description_returns:
  "\<exists>description g'. generate_property_description property_name location country g
       = Inr (description, g')"
  using description_shape [of property_name location country g] by blast

lemma make_record_returns:
  assumes "i < length property_names" and "i < length property_emails"
  shows "\<exists>r g' f'. make_record i property_names property_emails g f = Inr (r, g', f')"
proof -
  obtain description g8 where
    "generate_property_description (property_names ! i) (locations ! (g 2 mod 30))
       (countries ! (g 0 mod 3)) (advance 7 g) = Inr (description, g8)"
    using description_returns by blast
  with assms show ?thesis
    by (simp add: make_record_eq)
qed

lemma properties_loop_Inr:
  "properties_loop idx property_names property_emails acc g f = Inr (props, g', f') \<Longrightarrow>
     \<exists>rs. props = acc @ rs \<and> length rs = length idx \<and>
       (\<forall>j<length idx. \<exists>g0 f0 g1 f1.
          make_record (idx ! j) property_names property_emails g0 f0 = Inr (rs ! j, g1, f1))"
proof (induction idx arbitrary: acc g f)
  case Nil
  then show ?case by simp
next
  case (Cons i rest)
  from Cons.prems obtain r g1 f1 where
    mk: "make_record i property_names property_emails g f = Inr (r, g1, f1)" and
    lp: "properties_loop rest property_names property_emails (acc @ [r]) g1 f1 = Inr (props, g', f')"
    by (auto split: sum.splits)
  from Cons.IH [OF lp] obtain rs where
    rs: "props = (acc @ [r]) @ rs" "length rs = length rest"
      "\<forall>j<length rest. \<exists>g0 f0 g1 f1.
          make_record (rest ! j) property_names property_emails g0 f0 = Inr (rs ! j, g1, f1)"
    by blast
  have "\<forall>j<length (i # rest). \<exists>g0 f0 g1 f1.
          make_record ((i # rest) ! j) property_names property_emails g0 f0
            = Inr ((r # rs) ! j, g1, f1)"
  proof (intro allI impI)
    fix j assume "j < length (i # rest)"
    then show "\<exists>g0 f0 g1 f1.
          make_record ((i # rest) ! j) property_names property_emails g0 f0
            = Inr ((r # rs) ! j, g1, f1)"
      using mk rs(3) by (cases j) auto
  qed
  with rs(1,2) show ?case
    by (intro exI [of _ "r # rs"]) simp
qed

lemma properties_loop_first:
  "properties_loop (i # rest) property_names property_emails [] g f = Inr (props, g', f') \<Longrightarrow>
     \<exists>g1 f1. make_record i property_names property_emails g f = Inr (hd props, g1, f1)"
proof -
  assume a: "properties_loop (i # rest) property_names property_emails [] g f = Inr (props, g', f')"
  then obtain r g1 f1 where
    mk: "make_record i property_names property_emails g f = Inr (r, g1, f1)" and
    lp: "properties_loop rest property_names property_emails [r] g1 f1 = Inr (props, g', f')"
    by (auto split: sum.splits)
  from properties_loop_Inr [OF lp] have "hd props = r" by auto
  with mk show ?thesis by blast
qed

lemma properties_loop_returns:
  "\<forall>i\<in>set idx. i < length property_names \<and> i < length property_emails \<Longrightarrow>
     \<exists>props g' f'. properties_loop idx property_names property_emails acc g f = Inr (props, g', f')"
proof (induction idx arbitrary: acc g f)
  case Nil
  show ?case by simp
next
  case (Cons i rest)
  then obtain r g1 f1 where
    "make_record i property_names property_emails g f = Inr (r, g1, f1)"
    using make_record_returns [of i property_names property_emails g f] by auto
  with Cons show ?case by simp
qed

lemma length_unique_emails: "length (unique_emails names) = length names"
  by (induction names) simp_all

lemma nth_unique_emails:
  "i < length names \<Longrightarrow> unique_emails names ! i = ''info@'' @ email_slug (names ! i) @ ''.com''"
  by (induction names arbitrary: i) (auto simp: nth_Cons split: nat.splits)

lemma records_of_Inr: "records_of (Inr (path, JDict [(key, JList rs)])) = rs"
  by (simp add: records_of_def)

lemma main_Inr:
  assumes "main hash_order g f = Inr out"
  shows "\<exists>names g1 f1 rs.
           unique_property_names 1000 hash_order g f = Inr (names, g1, f1)
         \<and> out = (''propertyFiles.json'', JDict [(''properties'', JList rs)])
         \<and> length rs = 1000
         \<and> (\<forall>j<1000. \<exists>g0 f0 g' f'.
               make_record j names (unique_emails names) g0 f0 = Inr (rs ! j, g', f'))"
proof -
  from assms obtain names g1 f1 props g2 f2 where
    un: "unique_property_names 1000 hash_order g f = Inr (names, g1, f1)" and
    lp: "properties_loop [0..<1000] names (unique_emails names) [] g1 f1 = Inr (props, g2, f2)" and
    out: "out = (''propertyFiles.json'', JDict [(''properties'', JList props)])"
    by (auto simp: main_def Let_def split: sum.splits)
  from properties_loop_Inr [OF lp] have
    "length props = 1000" and
    "\<forall>j<1000. \<exists>g0 f0 g' f'.
       make_record j names (unique_emails names) g0 f0 = Inr (props ! j, g', f')"
    by auto
  with un out show ?thesis by blast
qed

lemma main_returns:
  assumes "unique_property_names 1000 hash_order g f = Inr (names, g1, f1)"
  shows "\<exists>rs. main hash_order g f = Inr (''propertyFiles.json'', JDict [(''properties'', JList rs)])"
proof -
  from unique_property_names_distinct [OF assms] have len: "length names = 1000" by simp
  then have "\<forall>i\<in>set [0..<1000]. i < length names \<and> i < length (unique_emails names)"
    by (simp add: length_unique_emails)
  from properties_loop_returns [OF this, of "[]" g1 f1] obtain props g2 f2 where
    "properties_loop [0..<1000] names (unique_emails names) [] g1 f1 = Inr (props, g2, f2)"
    by blast
  with assms show ?thesis
    by (simp add: main_def)
qed

section \<open>When the names are found at once\<close>

lemma unique_company_hit:
  "f 0 en_US \<notin> set seen \<Longrightarrow>
     unique_company seen f = Inr (f 0 en_US, f 0 en_US # seen, advance (Suc 0) f)"
  by (simp add: unique_company_def unique_attempts_def eval_nat_numeral provider_def)

lemma length_name_suffixes: "length name_suffixes = 8"
  by (simp add: name_suffixes_def)

lemma names_loop_run:
  assumes "length names + m = n"
    and "\<forall>x\<in>set names. \<exists>c\<in>set seen. \<exists>s\<in>set name_suffixes. x = c @ '' '' @ s"
    and "\<forall>i<m. f i en_US \<notin> set seen"
    and "\<forall>i<m. \<forall>j<m. i \<noteq> j \<longrightarrow> f i en_US \<noteq> f j en_US"
  shows "names_loop n names seen g f =
           Inr (names @ map (\<lambda>i. f i en_US @ '' '' @ name_suffixes ! (g i mod 8)) [0..<m],
                advance m g, advance m f)"
  using assms
proof (induction m arbitrary: names seen g f)
  case 0
  then show ?case
    by (simp add: names_loop.simps [of n names])
next
  case (Suc m)
  let ?c = "f 0 en_US"
  let ?s = "name_suffixes ! (g 0 mod 8)"
  let ?x = "?c @ '' '' @ ?s"
  from Suc.prems(1) have lt: "length names < n" by simp
  from Suc.prems(3) have fresh: "?c \<notin> set seen" by simp
  have uc: "unique_company seen f = Inr (?c, ?c # seen, advance (Suc 0) f)"
    using fresh by (rule unique_company_hit)
  have ch: "choice name_suffixes g = Inr (?s, advance (Suc 0) g)"
    using choice_at [of name_suffixes 0 g] by (simp add: length_name_suffixes) (simp add: name_suffixes_def)
  have s: "?s \<in> set name_suffixes"
    using choice_Inr [OF ch] by simp
  have new: "?x \<notin> set names"
  proof
    assume "?x \<in> set names"
    with Suc.prems(2) obtain c' s' where
      "c' \<in> set seen" "s' \<in> set name_suffixes" "?x = c' @ '' '' @ s'"
      by blast
    with name_company_inj [OF _ s, of ?c c' s'] fresh show False by simp
  qed
  have step: "names_loop n names seen g f =
      names_loop n (names @ [?x]) (?c # seen) (advance (Suc 0) g) (advance (Suc 0) f)"
    using lt new by (subst names_loop.simps) (simp add: uc ch set_add_def)
  have ih: "names_loop n (names @ [?x]) (?c # seen) (advance (Suc 0) g) (advance (Suc 0) f) =
      Inr ((names @ [?x]) @ map (\<lambda>i. advance (Suc 0) f i en_US @ '' ''
                @ name_suffixes ! (advance (Suc 0) g i mod 8)) [0..<m],
           advance m (advance (Suc 0) g), advance m (advance (Suc 0) f))"
  proof (rule Suc.IH)
    show "length (names @ [?x]) + m = n" using Suc.prems(1) by simp
    show "\<forall>x\<in>set (names @ [?x]). \<exists>c\<in>set (?c # seen). \<exists>s\<in>set name_suffixes. x = c @ '' '' @ s"
      using Suc.prems(2) s by auto
    show "\<forall>i<m. advance (Suc 0) f i en_US \<notin> set (?c # seen)"
      using Suc.prems(3,4) by (auto simp: advance_apply)
    show "\<forall>i<m. \<forall>j<m. i \<noteq> j \<longrightarrow> advance (Suc 0) f i en_US \<noteq> advance (Suc 0) f j en_US"
      using Suc.prems(4) by (auto simp: advance_apply)
  qed
  have shift: "map (\<lambda>i. advance (Suc 0) f i en_US @ '' ''
                @ name_suffixes ! (advance (Suc 0) g i mod 8)) [0..<m]
      = map (\<lambda>i. f (Suc i) en_US @ '' '' @ name_suffixes ! (g (Suc i) mod 8)) [0..<m]"
    by (simp add: advance_apply)
  show ?case
    unfolding step ih shift by (simp add: map_upt_Suc del: upt_Suc)
qed

lemma unique_property_names_run:
  assumes "\<forall>i<n. \<forall>j<n. i \<noteq> j \<longrightarrow> f i en_US \<noteq> f j en_US"
  shows "unique_property_names n hash_order g f =
           Inr (list_of_set hash_order
                  (map (\<lambda>i. f i en_US @ '' '' @ name_suffixes ! (g i mod 8)) [0..<n]),
                advance n g, advance n f)"
  using names_loop_run [of "[]" n n "[]" f g] assms
  by (simp add: unique_property_names_def)

lemma demo_faker_distinct: "\<forall>i<n. \<forall>j<n. i \<noteq> j \<longrightarrow> demo_faker i en_US \<noteq> demo_faker j en_US"
  by (auto simp: demo_faker_def dest: arg_cong [where f = length])

lemma main_demo_returns: "\<not> isl (main hash_order g demo_faker)"
proof -
  from unique_property_names_run [where f = demo_faker and n = 1000, OF demo_faker_distinct]
  obtain names g1 f1 where "unique_property_names 1000 hash_order g demo_faker = Inr (names, g1, f1)"
    by blast
  from main_returns [OF this] show ?thesis by auto
qed

section \<open>The fields of a record\<close>

lemma make_record_shape:
  assumes "make_record i property_names property_emails g f = Inr (r, g', f')"
  shows "\<exists>description.
    i < length property_names \<and> i < length property_emails \<and>
    generate_property_description (property_names ! i) (locations ! (g 2 mod 30))
       (countries ! (g 0 mod 3)) (advance 7 g) = Inr (description, g') \<and>
    r = JDict
       [(''id'', JInt (int i + 1)),
        (''propertyName'', JStr (property_names ! i)),
        (''propertyDescription'', JStr description),
        (''propertyLocation'', JStr (locations ! (g 2 mod 30))),
        (''propertyCity'', JStr (f 0 ([en_US, en_CA, es_MX] ! (g 0 mod 3)))),
        (''propertyState'',
           JStr (snd (countries_states ! (g 0 mod 3))
                   ! (g 1 mod length (snd (countries_states ! (g 0 mod 3)))))),
        (''propertyCountry'', JStr (countries ! (g 0 mod 3))),
        (''propertyAddress'',
           JStr (replace_char (CHR 0x0A) '', '' (f 1 ([en_US, en_CA, es_MX] ! (g 0 mod 3))))),
        (''propertyPhoneNumber'', JStr (f 2 ([en_US, en_CA, es_MX] ! (g 0 mod 3)))),
        (''propertyEmailAddress'', JStr (property_emails ! i)),
        (''propertyAirportProximity'',
           JStr (str_int (2 + int (g 3 mod 29)) @ '' miles from ''
                   @ f 3 ([en_US, en_CA, es_MX] ! (g 0 mod 3)) @ '' International Airport'')),
        (''propertyPricePerNight'',
           JFloat (round2 (75 + 675 * (of_nat (g 4 mod 2 ^ 53) / 2 ^ 53)))),
        (''propertyCommissionAmount'',
           JFloat (round2 (round2 (75 + 675 * (of_nat (g 4 mod 2 ^ 53) / 2 ^ 53))
                     * (1 / 10 + 1 / 10 * (of_nat (g 5 mod 2 ^ 53) / 2 ^ 53))))),
        (''propertyCancellationPenalty'', JStr (cancellation_policies ! (g 6 mod 9)))]"
proof (cases "i < length property_names \<and> i < length property_emails")
  case False
  with assms show ?thesis
    by (auto simp: make_record_eq split: sum.splits if_splits)
next
  case True
  obtain description g8 where d:
    "generate_property_description (property_names ! i) (locations ! (g 2 mod 30))
       (countries ! (g 0 mod 3)) (advance 7 g) = Inr (description, g8)"
    using description_returns by blast
  from assms True d show ?thesis
    by (simp add: make_record_eq)
qed

lemma record_fields:
  assumes "make_record i property_names property_emails g f = Inr (r, g', f')"
  shows "field ''id'' r = Some (JInt (int i + 1))"
    and "field ''propertyName'' r = Some (JStr (property_names ! i))"
    and "field ''propertyLocation'' r = Some (JStr (locations ! (g 2 mod 30)))"
    and "field ''propertyCity'' r = Some (JStr (f 0 ([en_US, en_CA, es_MX] ! (g 0 mod 3))))"
    and "field ''propertyState'' r =
           Some (JStr (snd (countries_states ! (g 0 mod 3))
                   ! (g 1 mod length (snd (countries_states ! (g 0 mod 3))))))"
    and "field ''propertyCountry'' r = Some (JStr (countries ! (g 0 mod 3)))"
    and "field ''propertyEmailAddress'' r = Some (JStr (property_emails ! i))"
    and "field ''propertyAirportProximity'' r =
           Some (JStr (str_int (2 + int (g 3 mod 29)) @ '' miles from ''
                   @ f 3 ([en_US, en_CA, es_MX] ! (g 0 mod 3)) @ '' International Airport''))"
    and "field ''propertyPricePerNight'' r =
           Some (JFloat (round2 (75 + 675 * (of_nat (g 4 mod 2 ^ 53) / 2 ^ 53))))"
    and "field ''propertyCommissionAmount'' r =
           Some (JFloat (round2 (round2 (75 + 675 * (of_nat (g 4 mod 2 ^ 53) / 2 ^ 53))
                     * (1 / 10 + 1 / 10 * (of_nat (g 5 mod 2 ^ 53) / 2 ^ 53)))))"
    and "i < length property_names" and "i < length property_emails"
  using make_record_shape [OF assms] by (auto simp: field_def)


section \<open>The records of a run\<close>

lemma main_records:
  assumes "main hash_order g f = Inr out"
  shows "\<exists>names g1 f1.
           unique_property_names 1000 hash_order g f = Inr (names, g1, f1)
         \<and> length (records_of (main hash_order g f)) = 1000
         \<and> (\<forall>j<1000. \<exists>g0 f0 g' f'.
               make_record j names (unique_emails names) g0 f0
                 = Inr (records_of (main hash_order g f) ! j, g', f'))"
  using main_Inr [OF assms] assms by (auto simp: records_of_Inr)

lemma main_record_in:
  assumes "main hash_order g f = Inr out" and "r \<in> set (records_of (main hash_order g f))"
  shows "\<exists>names g1 f1 j g0 f0 g' f'.
           unique_property_names 1000 hash_order g f = Inr (names, g1, f1)
         \<and> j < 1000
         \<and> make_record j names (unique_emails names) g0 f0 = Inr (r, g', f')"
proof -
  from main_records [OF assms(1)] obtain names g1 f1 where
    un: "unique_property_names 1000 hash_order g f = Inr (names, g1, f1)" and
    len: "length (records_of (main hash_order g f)) = 1000" and
    mk: "\<forall>j<1000. \<exists>g0 f0 g' f'.
               make_record j names (unique_emails names) g0 f0
                 = Inr (records_of (main hash_order g f) ! j, g', f')"
    by blast
  from assms(2) len obtain j where "j < 1000" "records_of (main hash_order g f) ! j = r"
    by (auto simp: in_set_conv_nth)
  with un mk show ?thesis by blast
qed

lemma demo_run:
  "\<exists>out. main hash_order g demo_faker = Inr out"
  using main_demo_returns [of hash_order g] by (cases "main hash_order g demo_faker") auto

lemma demo_first_record:
  "hd (records_of (main hash_order g demo_faker)) \<in> set (records_of (main hash_order g demo_faker))"
proof -
  obtain out where "main hash_order g demo_faker = Inr out" using demo_run by blast
  from main_records [OF this] have "records_of (main hash_order g demo_faker) \<noteq> []" by auto
  then show ?thesis by simp
qed

lemma country_states_lookup:
  "k < 3 \<Longrightarrow> map_of countries_states (countries ! k) = Some (snd (countries_states ! k))"
  by (auto simp: less_Suc_eq numeral_3_eq_3 countries_def countries_states_def)

lemma subdivision_lists:
  "map_of countries_states ''USA'' = Some us_states"
  "map_of countries_states ''Canada'' = Some canadian_provinces"
  "map_of countries_states ''Mexico'' = Some mexican_states"
  by (simp_all add: countries_states_def)


lemma record_keys_types:
  assumes "make_record i property_names property_emails g f = Inr (r, g', f')"
  shows "\<exists>kvs. r = JDict kvs
           \<and> map fst kvs =
               [''id'', ''propertyName'', ''propertyDescription'', ''propertyLocation'',
                ''propertyCity'', ''propertyState'', ''propertyCountry'', ''propertyAddress'',
                ''propertyPhoneNumber'', ''propertyEmailAddress'', ''propertyAirportProximity'',
                ''propertyPricePerNight'', ''propertyCommissionAmount'',
                ''propertyCancellationPenalty'']
           \<and> map (\<lambda>kv. json_type_of (snd kv)) kvs =
               [TInteger, TString, TString, TString, TString, TString, TString, TString,
                TString, TString, TString, TFloat, TFloat, TString]"
  using make_record_shape [OF assms] by (elim exE conjE) simp

section \<open>The email derivation\<close>

lemma replace_char_Nil: "replace_char old new [] = []"
  by (simp add: replace_char_def)

lemma replace_char_Cons:
  "replace_char old new (c # s) = (if c = old then new else [c]) @ replace_char old new s"
  by (simp add: replace_char_def)

lemma replace_char_append:
  "replace_char old new (s @ t) = replace_char old new s @ replace_char old new t"
  by (simp add: replace_char_def)

lemma replace_chain_chars:
  "replace_char CHR '','' []
     (replace_char CHR ''-'' []
        (replace_char CHR ''&'' ''and'' (replace_char CHR '' '' [] s)))
   = concat (map email_char s)"
  by (induction s)
     (simp_all add: replace_char_Nil replace_char_Cons replace_char_append email_char_def)

lemma email_slug_chars: "email_slug name = concat (map email_char (lower name))"
  by (simp add: email_slug_def replace_chain_chars)

lemma derived_email_slug: "derived_email name = ''info@'' @ email_slug name @ ''.com''"
  by (simp add: derived_email_def email_slug_chars)

lemma main_names_emails:
  assumes "main hash_order g f = Inr out"
  shows "\<exists>names g1 f1.
           unique_property_names 1000 hash_order g f = Inr (names, g1, f1)
         \<and> map (field ''propertyName'') (records_of (main hash_order g f))
             = map (\<lambda>n. Some (JStr n)) names
         \<and> map (field ''propertyEmailAddress'') (records_of (main hash_order g f))
             = map (\<lambda>n. Some (JStr (''info@'' @ email_slug n @ ''.com''))) names"
proof -
  let ?rs = "records_of (main hash_order g f)"
  from main_records [OF assms] obtain names g1 f1 where
    un: "unique_property_names 1000 hash_order g f = Inr (names, g1, f1)" and
    len: "length ?rs = 1000" and
    mk: "\<forall>j<1000. \<exists>g0 f0 g' f'.
               make_record j names (unique_emails names) g0 f0 = Inr (?rs ! j, g', f')"
    by blast
  from unique_property_names_distinct [OF un] have ln: "length names = 1000" by simp
  have a: "map (field ''propertyName'') ?rs = map (\<lambda>n. Some (JStr n)) names"
  proof (rule nth_equalityI)
    show "length (map (field ''propertyName'') ?rs) = length (map (\<lambda>n. Some (JStr n)) names)"
      using len ln by simp
  next
    fix j assume "j < length (map (field ''propertyName'') ?rs)"
    then have j: "j < 1000" using len by simp
    with mk obtain g0 f0 g' f' where
      "make_record j names (unique_emails names) g0 f0 = Inr (?rs ! j, g', f')" by blast
    from record_fields(2) [OF this] j len ln
    show "map (field ''propertyName'') ?rs ! j = map (\<lambda>n. Some (JStr n)) names ! j"
      by simp
  qed
  have b: "map (field ''propertyEmailAddress'') ?rs
             = map (\<lambda>n. Some (JStr (''info@'' @ email_slug n @ ''.com''))) names"
  proof (rule nth_equalityI)
    show "length (map (field ''propertyEmailAddress'') ?rs)
            = length (map (\<lambda>n. Some (JStr (''info@'' @ email_slug n @ ''.com''))) names)"
      using len ln by simp
  next
    fix j assume "j < length (map (field ''propertyEmailAddress'') ?rs)"
    then have j: "j < 1000" using len by simp
    with mk obtain g0 f0 g' f' where
      "make_record j names (unique_emails names) g0 f0 = Inr (?rs ! j, g', f')" by blast
    from record_fields(7) [OF this] j len ln
    show "map (field ''propertyEmailAddress'') ?rs ! j
            = map (\<lambda>n. Some (JStr (''info@'' @ email_slug n @ ''.com''))) names ! j"
      by (simp add: nth_unique_emails)
  qed
  from un a b show ?thesis by blast
qed


section \<open>Facts about the example runs\<close>


lemma list_of_set_second:
  "1 < length xs \<Longrightarrow> hd (list_of_set [Suc 0] xs) = xs ! 1"
  by (cases xs) (auto simp: Let_def)

lemma run_names:
  assumes "\<forall>i<1000. \<forall>j<1000. i \<noteq> j \<longrightarrow> f i en_US \<noteq> f j en_US"
  shows "\<not> isl (main hash_order g f)"
    and "map (field ''propertyName'') (records_of (main hash_order g f))
           = map (\<lambda>n. Some (JStr n)) (list_of_set hash_order
               (map (\<lambda>i. f i en_US @ '' '' @ name_suffixes ! (g i mod 8)) [0..<1000]))"
    and "map (field ''propertyEmailAddress'') (records_of (main hash_order g f))
           = map (\<lambda>n. Some (JStr (''info@'' @ email_slug n @ ''.com''))) (list_of_set hash_order
               (map (\<lambda>i. f i en_US @ '' '' @ name_suffixes ! (g i mod 8)) [0..<1000]))"
proof -
  have un: "unique_property_names 1000 hash_order g f =
      Inr (list_of_set hash_order
             (map (\<lambda>i. f i en_US @ '' '' @ name_suffixes ! (g i mod 8)) [0..<1000]),
           advance 1000 g, advance 1000 f)"
    using assms by (rule unique_property_names_run)
  from main_returns [OF un] obtain out where out: "main hash_order g f = Inr out" by blast
  then show "\<not> isl (main hash_order g f)" by simp
  from main_names_emails [OF out] un
  show "map (field ''propertyName'') (records_of (main hash_order g f))
           = map (\<lambda>n. Some (JStr n)) (list_of_set hash_order
               (map (\<lambda>i. f i en_US @ '' '' @ name_suffixes ! (g i mod 8)) [0..<1000]))"
    and "map (field ''propertyEmailAddress'') (records_of (main hash_order g f))
           = map (\<lambda>n. Some (JStr (''info@'' @ email_slug n @ ''.com''))) (list_of_set hash_order
               (map (\<lambda>i. f i en_US @ '' '' @ name_suffixes ! (g i mod 8)) [0..<1000]))"
    by auto
qed



lemma first_name_field:
  assumes "map (field ''propertyName'') rs = map (\<lambda>n. Some (JStr n)) names" and "names \<noteq> []"
  shows "field ''propertyName'' (hd rs) = Some (JStr (hd names))"
proof -
  from assms have "rs \<noteq> []" by auto
  then have "field ''propertyName'' (hd rs) = hd (map (field ''propertyName'') rs)"
    by (simp add: hd_map)
  also have "\<dots> = Some (JStr (hd names))"
    using assms by (simp add: hd_map)
  finally show ?thesis .
qed

lemma demo_names_nth:
  "i < 1000 \<Longrightarrow>
     map (\<lambda>i. f i en_US @ '' '' @ name_suffixes ! (g i mod 8)) [0..<1000] ! i
       = f i en_US @ '' '' @ name_suffixes ! (g i mod 8)"
  by simp

section \<open>Rounding, price and commission\<close>

lemma round_half_even_near: "\<bar>of_int (round_half_even q) - q\<bar> \<le> 1 / 2"
proof -
  have "of_int \<lfloor>q\<rfloor> \<le> q" and "q < of_int \<lfloor>q\<rfloor> + 1"
    by linarith+
  then show ?thesis
    by (auto simp: round_half_even_def Let_def)
qed

lemma round_half_even_ge: "of_int a \<le> q \<Longrightarrow> a \<le> round_half_even q"
proof -
  assume "of_int a \<le> q"
  then have "a \<le> \<lfloor>q\<rfloor>" by (simp add: le_floor_iff)
  then show ?thesis
    by (auto simp: round_half_even_def Let_def)
qed

lemma round_half_even_le: "q \<le> of_int b \<Longrightarrow> round_half_even q \<le> b"
proof -
  assume b: "q \<le> of_int b"
  then have f: "\<lfloor>q\<rfloor> \<le> b" by (simp add: floor_le_iff)
  show ?thesis
  proof (cases "q - of_int \<lfloor>q\<rfloor> < 1 / 2")
    case True
    with f show ?thesis by (simp add: round_half_even_def Let_def)
  next
    case False
    then have "of_int \<lfloor>q\<rfloor> < q" by linarith
    with b have "of_int \<lfloor>q\<rfloor> < (of_int b :: rat)" by linarith
    then have "\<lfloor>q\<rfloor> < b" by simp
    then show ?thesis by (auto simp: round_half_even_def Let_def)
  qed
qed

lemma round_half_even_eqI:
  assumes "of_int n \<le> q" and "q < of_int n + 1 / 2"
  shows "round_half_even q = n"
proof -
  from assms have "\<lfloor>q\<rfloor> = n" by (intro floor_unique) linarith+
  with assms show ?thesis
    by (simp add: round_half_even_def Let_def)
qed

lemma round2_near: "\<bar>round2 x - x\<bar> \<le> 1 / 200"
proof -
  have "\<bar>of_int (round_half_even (x * 100)) - x * 100\<bar> \<le> 1 / 2"
    by (rule round_half_even_near)
  then show ?thesis
    by (simp add: round2_def abs_le_iff field_simps)
qed

lemma round2_bounds:
  assumes "of_int a / 100 \<le> x" and "x \<le> of_int b / 100"
  shows "of_int a / 100 \<le> round2 x" and "round2 x \<le> of_int b / 100"
proof -
  from assms have "of_int a \<le> x * 100" and "x * 100 \<le> of_int b"
    by (simp_all add: field_simps)
  then have "a \<le> round_half_even (x * 100)" and "round_half_even (x * 100) \<le> b"
    by (simp_all add: round_half_even_ge round_half_even_le)
  then show "of_int a / 100 \<le> round2 x" and "round2 x \<le> of_int b / 100"
    by (simp_all add: round2_def divide_right_mono)
qed

lemma round2_price_range: "75 \<le> x \<Longrightarrow> x \<le> 750 \<Longrightarrow> 75 \<le> round2 x \<and> round2 x \<le> 750"
  using round2_bounds [of 7500 x 75000] by simp

lemma unit_draw_range:
  "0 \<le> (of_nat (k mod 2 ^ 53) / 2 ^ 53 :: rat)" "(of_nat (k mod 2 ^ 53) / 2 ^ 53 :: rat) < 1"
proof -
  show "0 \<le> (of_nat (k mod 2 ^ 53) / 2 ^ 53 :: rat)" by simp
  have "k mod 2 ^ 53 < 2 ^ 53" by simp
  then have "(of_nat (k mod 2 ^ 53) :: rat) < of_nat (2 ^ 53)"
    by (simp only: of_nat_less_iff)
  then show "(of_nat (k mod 2 ^ 53) / 2 ^ 53 :: rat) < 1" by simp
qed

lemma price_commission:
  fixes k4 k5 :: nat
  defines "price \<equiv> round2 (75 + 675 * (of_nat (k4 mod 2 ^ 53) / 2 ^ 53))"
  defines "y \<equiv> price * (1 / 10 + 1 / 10 * (of_nat (k5 mod 2 ^ 53) / 2 ^ 53))"
  shows "75 \<le> price" and "price \<le> 750"
    and "1 / 10 * price \<le> y" and "y \<le> 2 / 10 * price"
    and "1 / 10 * price - 1 / 200 \<le> round2 y" and "round2 y \<le> 2 / 10 * price + 1 / 200"
proof -
  define u4 :: rat where "u4 = of_nat (k4 mod 2 ^ 53) / 2 ^ 53"
  define u5 :: rat where "u5 = of_nat (k5 mod 2 ^ 53) / 2 ^ 53"
  have u4: "0 \<le> u4" "u4 < 1" and u5: "0 \<le> u5" "u5 < 1"
    unfolding u4_def u5_def by (rule unit_draw_range)+
  have "75 \<le> 75 + 675 * u4" and "75 + 675 * u4 \<le> 750"
    using u4 by simp_all
  from round2_price_range [OF this] show p: "75 \<le> price" "price \<le> 750"
    by (simp_all add: price_def u4_def)
  have y: "y = price * (1 / 10 + 1 / 10 * u5)"
    by (simp add: y_def u5_def)
  have "price * (1 / 10) \<le> price * (1 / 10 + 1 / 10 * u5)"
    using p(1) u5 by (intro mult_left_mono) simp_all
  then show lo: "1 / 10 * price \<le> y" by (simp add: y)
  have "price * (1 / 10 + 1 / 10 * u5) \<le> price * (2 / 10)"
    using p(1) u5 by (intro mult_left_mono) simp_all
  then show hi: "y \<le> 2 / 10 * price" by (simp add: y)
  from round2_near [of y] have "y - 1 / 200 \<le> round2 y" and "round2 y \<le> y + 1 / 200"
    by linarith+
  with lo hi show "1 / 10 * price - 1 / 200 \<le> round2 y" and "round2 y \<le> 2 / 10 * price + 1 / 200"
    by linarith+
qed

lemma main_first_record:
  assumes "unique_property_names 1000 hash_order g f = Inr (names, g1, f1)"
  shows "\<exists>g' f'. make_record 0 names (unique_emails names) g1 f1
           = Inr (hd (records_of (main hash_order g f)), g', f')"
proof -
  from main_returns [OF assms] obtain rs where
    m: "main hash_order g f = Inr (''propertyFiles.json'', JDict [(''properties'', JList rs)])"
    by blast
  with assms obtain g2 f2 where
    "properties_loop [0..<1000] names (unique_emails names) [] g1 f1 = Inr (rs, g2, f2)"
    by (auto simp: main_def Let_def split: sum.splits)
  then have "properties_loop (0 # [Suc 0..<1000]) names (unique_emails names) [] g1 f1
               = Inr (rs, g2, f2)"
    by (simp only: upt_conv_Cons [of 0 1000, simplified])
  from properties_loop_first [OF this] m show ?thesis
    by (simp add: records_of_Inr)
qed

lemma round2_cents: "round2 x = of_int (round_half_even (x * 100)) / 100"
  by (simp add: round2_def)

lemma edge_price: "round2 (75 + 675 * (of_nat (400320000000 mod 2 ^ 53) / 2 ^ 53)) = 7503 / 100"
proof -
  have "round_half_even ((75 + 675 * (of_nat (400320000000 mod 2 ^ 53) / 2 ^ 53)) * 100) = 7503"
    by (rule round_half_even_eqI) simp_all
  then show ?thesis by (simp add: round2_def)
qed

lemma edge_commission: "round2 (7503 / 100 * (1 / 10 + 1 / 10 * (of_nat (0 mod 2 ^ 53) / 2 ^ 53))) = 750 / 100"
proof -
  have "round_half_even (7503 / 100 * (1 / 10 + 1 / 10 * (of_nat (0 mod 2 ^ 53) / 2 ^ 53)) * 100) = 750"
    by (rule round_half_even_eqI) simp_all
  then show ?thesis by (simp add: round2_def)
qed

section \<open>The description of a record\<close>

lemma starts_with_iff: "starts_with sub s = (\<exists>post. s = sub @ post)"
  by (induction sub s rule: starts_with.induct) auto

lemma contains_iff: "contains sub s = (\<exists>pre post. s = pre @ sub @ post)"
proof (induction s)
  case Nil
  show ?case by auto
next
  case (Cons b s)
  show ?case
  proof
    assume "contains sub (b # s)"
    then consider "starts_with sub (b # s)" | "contains sub s" by auto
    then show "\<exists>pre post. b # s = pre @ sub @ post"
    proof cases
      case 1
      then obtain post where "b # s = sub @ post" by (auto simp: starts_with_iff)
      then have "b # s = [] @ sub @ post" by simp
      then show ?thesis by blast
    next
      case 2
      with Cons.IH obtain pre post where "s = pre @ sub @ post" by blast
      then have "b # s = (b # pre) @ sub @ post" by simp
      then show ?thesis by blast
    qed
  next
    assume "\<exists>pre post. b # s = pre @ sub @ post"
    then obtain pre post where eq: "b # s = pre @ sub @ post" by blast
    show "contains sub (b # s)"
    proof (cases pre)
      case Nil
      with eq have "starts_with sub (b # s)" by (auto simp: starts_with_iff)
      then show ?thesis by simp
    next
      case (Cons a pre')
      with eq have "s = pre' @ sub @ post" by simp
      with Cons.IH have "contains sub s" by blast
      then show ?thesis by simp
    qed
  qed
qed



lemma demo_first_fields:
  "field ''propertyName'' (hd (records_of (main [] demo_rng demo_faker)))
     = Some (JStr ''x Resort'')"
  "field ''propertyCountry'' (hd (records_of (main [] demo_rng demo_faker)))
     = Some (JStr ''USA'')"
  "field ''propertyState'' (hd (records_of (main [] demo_rng demo_faker)))
     = Some (JStr ''Alabama'')"
  "field ''propertyAirportProximity'' (hd (records_of (main [] demo_rng demo_faker)))
     = Some (JStr (''2 miles from '' @ replicate 1004 CHR ''x'' @ '' International Airport''))"
  "field ''propertyPricePerNight'' (hd (records_of (main [] demo_rng demo_faker)))
     = Some (JFloat 75)"
  "field ''propertyCommissionAmount'' (hd (records_of (main [] demo_rng demo_faker)))
     = Some (JFloat (15 / 2))"
proof -
  let ?names = "list_of_set []
             (map (\<lambda>i. demo_faker i en_US @ '' '' @ name_suffixes ! (demo_rng i mod 8)) [0..<1000])"
  have un: "unique_property_names 1000 [] demo_rng demo_faker =
      Inr (?names, advance 1000 demo_rng, advance 1000 demo_faker)"
    using demo_faker_distinct by (rule unique_property_names_run)
  from main_first_record [OF un] obtain g' f' where
    mk: "make_record 0 ?names (unique_emails ?names) (advance 1000 demo_rng)
           (advance 1000 demo_faker)
         = Inr (hd (records_of (main [] demo_rng demo_faker)), g', f')"
    by blast
  have d: "advance 1000 demo_rng k = 0" for k
    by (simp add: advance_apply demo_rng_def)
  have n0: "?names ! 0 = ''x Resort''"
    using demo_names_nth [of 0 demo_faker demo_rng]
    by (simp add: demo_faker_def demo_rng_def name_suffixes_def del: upt_Suc)
  have "str_int (2 + int (0 mod 29)) = ''2''"
    by code_simp
  then have s8: "str_int (2 + int (advance 1000 demo_rng 3 mod 29)) = ''2''"
    by (simp only: d)
  have a3: "advance 1000 demo_faker 3 l = replicate 1004 CHR ''x''" for l
    by (simp add: advance_apply demo_faker_def del: replicate_Suc replicate.simps)
  have r75: "round2 75 = 75"
  proof -
    have "round_half_even (75 * 100) = 7500" by (rule round_half_even_eqI) simp_all
    then show ?thesis by (simp add: round2_def)
  qed
  have r750: "round2 (15 / 2) = 15 / 2"
  proof -
    have "round_half_even (15 / 2 * 100) = 750" by (rule round_half_even_eqI) simp_all
    then show ?thesis by (simp add: round2_def)
  qed
  show "field ''propertyName'' (hd (records_of (main [] demo_rng demo_faker)))
     = Some (JStr ''x Resort'')"
    using record_fields(2) [OF mk] by (simp only: n0)
  show "field ''propertyCountry'' (hd (records_of (main [] demo_rng demo_faker)))
     = Some (JStr ''USA'')"
    using record_fields(6) [OF mk] by (simp add: d countries_eq)
  show "field ''propertyState'' (hd (records_of (main [] demo_rng demo_faker)))
     = Some (JStr ''Alabama'')"
    using record_fields(5) [OF mk] by (simp add: d countries_states_def us_states_def)
  show "field ''propertyAirportProximity'' (hd (records_of (main [] demo_rng demo_faker)))
     = Some (JStr (''2 miles from '' @ replicate 1004 CHR ''x'' @ '' International Airport''))"
    using record_fields(8) [OF mk] by (simp only: s8 a3 append.simps)
  show "field ''propertyPricePerNight'' (hd (records_of (main [] demo_rng demo_faker)))
     = Some (JFloat 75)"
    using record_fields(9) [OF mk] by (simp add: d r75)
  show "field ''propertyCommissionAmount'' (hd (records_of (main [] demo_rng demo_faker)))
     = Some (JFloat (15 / 2))"
    using record_fields(10) [OF mk] by (simp add: d r75 r750)
qed

section \<open>The generator states of the run\<close>

lemma length_opening_lines: "length (opening_lines property_name location) = 5"
  by (simp add: opening_lines_def)

lemma description_eq:
  assumes am: "map_of location_amenities location = Some amenities" "length amenities = 5"
    and fe: "map_of property_type_features (extract_property_type property_name) = Some features"
      "length features = 5"
  shows "generate_property_description property_name location country g =
           Inr (opening_lines property_name location ! (g 0 mod 5) @ '' Located ''
                  @ dict_get location_descriptions location
                      (''in a beautiful '' @ lower location @ '' setting'')
                  @ '', our property combines modern comfort with local charm. ''
                  @ feature_text
                      (fst (shuffle
                         (fst (sample_pool amenities 4 (advance 1 g))
                            @ fst (sample_pool features 3 (advance 5 g)))
                         (advance 8 g)))
                  @ '', ''
                  @ dict_get country_closings country ''ensuring a memorable stay for every guest.'',
                advance 14 g)"
proof -
  define sa where "sa = fst (sample_pool amenities 4 (advance 1 g))"
  define sf where "sf = fst (sample_pool features 3 (advance 5 g))"
  define af where "af = fst (shuffle (sa @ sf) (advance 8 g))"
  have a: "dict_get location_amenities location
             [''scenic views'', ''comfortable accommodations'', ''friendly service''] = amenities"
    using am by (simp add: dict_get_def)
  have b: "dict_get property_type_features (extract_property_type property_name)
             [''quality accommodations'', ''excellent service''] = features"
    using fe by (simp add: dict_get_def)
  have ne: "opening_lines property_name location \<noteq> []"
    by (simp add: opening_lines_def)
  have op: "choice (opening_lines property_name location) g
              = Inr (opening_lines property_name location ! (g 0 mod 5), advance 1 g)"
    using choice_nonempty [OF ne, of g] by (simp only: length_opening_lines)
  have m4: "min 4 (length amenities) = 4" and m3: "min 3 (length features) = 3"
    using am(2) fe(2) by simp_all
  have "snd (sample_pool amenities 4 (advance 1 g)) = advance 5 g"
    by (simp add: sample_pool_rng)
  then have p1: "sample_pool amenities 4 (advance 1 g) = (sa, advance 5 g)"
    by (simp add: sa_def prod_eq_iff)
  have s1: "sample amenities 4 (advance 1 g) = Inr (sa, advance 5 g)"
    by (simp only: sample_def p1 am(2)) simp
  have "snd (sample_pool features 3 (advance 5 g)) = advance 8 g"
    by (simp add: sample_pool_rng)
  then have p2: "sample_pool features 3 (advance 5 g) = (sf, advance 8 g)"
    by (simp add: sf_def prod_eq_iff)
  have s2: "sample features 3 (advance 5 g) = Inr (sf, advance 8 g)"
    by (simp only: sample_def p2 fe(2)) simp
  have lsa: "length sa = 4"
    using sample_pool_mset [of 4 amenities "advance 1 g"] am(2) by (simp add: sa_def)
  have lsf: "length sf = 3"
    using sample_pool_mset [of 3 features "advance 5 g"] fe(2) by (simp add: sf_def)
  have "snd (shuffle (sa @ sf) (advance 8 g)) = advance 14 g"
    using lsa lsf by (simp add: shuffle_def shuffle_from_rng)
  then have sh: "shuffle (sa @ sf) (advance 8 g) = (af, advance 14 g)"
    by (simp add: af_def prod_eq_iff)
  show ?thesis
    unfolding generate_property_description_def Let_def a b m4 m3 bind_result_def
    apply (simp only: op sum.case prod.case s1 s2 sh)
    apply (simp only: af_def sa_def sf_def)
    done
qed

lemma description_rng:
  assumes "location \<in> set locations"
    and "generate_property_description property_name location country g = Inr (description, g')"
  shows "g' = advance 14 g"
proof -
  from location_amenities_five [OF assms(1)] obtain amenities where
    am: "map_of location_amenities location = Some amenities" "length amenities = 5" by blast
  from property_type_features_five [OF extract_property_type_key [of property_name]]
  obtain features where
    fe: "map_of property_type_features (extract_property_type property_name) = Some features"
      "length features = 5" by blast
  from assms(2) show ?thesis
    unfolding description_eq [OF am fe] by simp
qed

lemma make_record_states:
  assumes "make_record i property_names property_emails g f = Inr (r, g', f')"
  shows "g' = advance 21 g" and "f' = advance 4 f"
proof -
  have loc: "locations ! (g 2 mod 30) \<in> set locations"
    by (simp add: length_locations)
  from make_record_shape [OF assms] obtain description where
    gen: "generate_property_description (property_names ! i) (locations ! (g 2 mod 30))
       (countries ! (g 0 mod 3)) (advance 7 g) = Inr (description, g')"
    and i: "i < length property_names" "i < length property_emails"
    by blast
  from description_rng [OF loc gen] show "g' = advance 21 g" by simp
  from assms i gen show "f' = advance 4 f"
    by (simp add: make_record_eq)
qed

lemma properties_loop_states:
  "properties_loop idx property_names property_emails acc g f = Inr (props, g', f') \<Longrightarrow>
     \<exists>rs. props = acc @ rs \<and> length rs = length idx \<and>
       (\<forall>k<length idx. \<exists>g2 f2.
          make_record (idx ! k) property_names property_emails
            (advance (21 * k) g) (advance (4 * k) f) = Inr (rs ! k, g2, f2))"
proof (induction idx arbitrary: acc g f)
  case Nil
  then show ?case by simp
next
  case (Cons i rest)
  from Cons.prems obtain r g1 f1 where
    mk: "make_record i property_names property_emails g f = Inr (r, g1, f1)" and
    lp: "properties_loop rest property_names property_emails (acc @ [r]) g1 f1 = Inr (props, g', f')"
    by (auto split: sum.splits)
  from make_record_states [OF mk] have st: "g1 = advance 21 g" "f1 = advance 4 f" .
  from Cons.IH [OF lp] obtain rs where
    rs: "props = (acc @ [r]) @ rs" "length rs = length rest"
      "\<forall>k<length rest. \<exists>g2 f2.
          make_record (rest ! k) property_names property_emails
            (advance (21 * k) g1) (advance (4 * k) f1) = Inr (rs ! k, g2, f2)"
    by blast
  have "\<exists>g2 f2. make_record ((i # rest) ! k) property_names property_emails
            (advance (21 * k) g) (advance (4 * k) f) = Inr ((r # rs) ! k, g2, f2)"
    if k: "k < length (i # rest)" for k
  proof (cases k)
    case 0
    with mk show ?thesis by simp
  next
    case (Suc k')
    with k have "k' < length rest" by simp
    with rs(3) obtain g2 f2 where
      "make_record (rest ! k') property_names property_emails
            (advance (21 * k') g1) (advance (4 * k') f1) = Inr (rs ! k', g2, f2)"
      by blast
    moreover have "advance (21 * k') g1 = advance (21 * k) g"
      and "advance (4 * k') f1 = advance (4 * k) f"
      using Suc st by (simp_all add: add.commute)
    ultimately show ?thesis using Suc by auto
  qed
  with rs(1,2) show ?case
    by (intro exI [of _ "r # rs"]) simp
qed

lemma main_record_at:
  assumes "unique_property_names 1000 hash_order g f = Inr (names, g1, f1)" and "j < 1000"
  shows "length (records_of (main hash_order g f)) = 1000"
    and "\<exists>g2 f2. make_record j names (unique_emails names)
            (advance (21 * j) g1) (advance (4 * j) f1)
          = Inr (records_of (main hash_order g f) ! j, g2, f2)"
proof -
  from main_returns [OF assms(1)] obtain rs where
    m: "main hash_order g f = Inr (''propertyFiles.json'', JDict [(''properties'', JList rs)])"
    by blast
  with assms(1) obtain g3 f3 where
    lp: "properties_loop [0..<1000] names (unique_emails names) [] g1 f1 = Inr (rs, g3, f3)"
    by (auto simp: main_def Let_def split: sum.splits)
  have rs: "records_of (main hash_order g f) = rs"
    using m by (simp add: records_of_Inr)
  from properties_loop_states [OF lp] have
    len: "length rs = 1000" and
    at: "\<forall>k<1000. \<exists>g2 f2.
          make_record ([0..<1000] ! k) names (unique_emails names)
            (advance (21 * k) g1) (advance (4 * k) f1) = Inr (rs ! k, g2, f2)"
    by auto
  from len rs show "length (records_of (main hash_order g f)) = 1000" by simp
  from at assms(2) rs show "\<exists>g2 f2. make_record j names (unique_emails names)
            (advance (21 * j) g1) (advance (4 * j) f1)
          = Inr (records_of (main hash_order g f) ! j, g2, f2)"
    by (auto simp del: upt_Suc)
qed

section \<open>The feature sentence, the sample and the shuffle, spelled out\<close>

lemma feature_text_seven:
  "feature_text [a0, a1, a2, a3, a4, a5, a6] =
     ''Enjoy '' @ a0 @ '', '' @ a1 @ '', and '' @ a2 @ '', along with ''
       @ a3 @ '', '' @ a4 @ '', '' @ a5 @ '', '' @ a6"
  by (simp add: feature_text_def)

lemma list_seven:
  assumes "length xs = 7"
  shows "xs = [xs ! 0, xs ! 1, xs ! 2, xs ! 3, xs ! 4, xs ! 5, xs ! 6]"
proof (rule nth_equalityI)
  show "length xs = length [xs ! 0, xs ! 1, xs ! 2, xs ! 3, xs ! 4, xs ! 5, xs ! 6]"
    using assms by simp
next
  fix i assume "i < length xs"
  with assms have "i < 7" by simp
  then consider "i = 0" | "i = 1" | "i = 2" | "i = 3" | "i = 4" | "i = 5" | "i = 6"
    by linarith
  then show "xs ! i = [xs ! 0, xs ! 1, xs ! 2, xs ! 3, xs ! 4, xs ! 5, xs ! 6] ! i"
    by cases simp_all
qed

lemma sample_pool_first:
  "fst (sample_pool pool (Suc k) g) ! 0 = pool ! (g 0 mod length pool)"
  by (simp add: randbelow_def case_prod_beta)

lemma shuffle_from_length: "length (fst (shuffle_from i xs g)) = length xs"
  by (induction i arbitrary: xs g) (simp_all add: randbelow_def)

lemma shuffle_from_above:
  "i < k \<Longrightarrow> fst (shuffle_from i xs g) ! k = xs ! k"
proof (induction i arbitrary: xs g)
  case 0
  show ?case by simp
next
  case (Suc i)
  define j where "j = g 0 mod Suc (Suc i)"
  have "j < Suc (Suc i)" by (simp add: j_def)
  with Suc.prems have ne: "j \<noteq> k" "Suc i \<noteq> k" by simp_all
  from Suc.prems have "i < k" by simp
  from Suc.IH [OF this, of "xs[Suc i := xs ! j, j := xs ! Suc i]" "advance 1 g"] ne
  show ?case by (simp add: randbelow_def j_def)
qed

lemma shuffle_last:
  assumes "2 \<le> length xs"
  shows "fst (shuffle xs g) ! (length xs - 1) = xs ! (g 0 mod length xs)"
proof -
  from assms obtain i where n: "length xs = Suc (Suc i)"
    by (metis Suc_le_D numeral_2_eq_2 Suc_le_mono le0 add_2_eq_Suc le_Suc_ex)
  define j where "j = g 0 mod Suc (Suc i)"
  have j: "j < Suc (Suc i)" by (simp add: j_def)
  let ?ys = "xs[Suc i := xs ! j, j := xs ! Suc i]"
  have "fst (shuffle xs g) = fst (shuffle_from i ?ys (advance 1 g))"
    by (simp add: shuffle_def n randbelow_def j_def)
  then have "fst (shuffle xs g) ! Suc i = ?ys ! Suc i"
    by (simp add: shuffle_from_above)
  also have "\<dots> = xs ! j"
    using j n by (cases "j = Suc i") simp_all
  finally show ?thesis by (simp add: n j_def)
qed

section \<open>How a run can fail\<close>

text \<open>
  Every function of the model is total, so the script always ends; the only exception it
  can end with is Faker's UniquenessException, raised when \<^verbatim>\<open>fake.unique\<close> cannot find a
  new company name.
\<close>

lemma unique_retry_error: "unique_retry k seen f = Inl e \<Longrightarrow> e = UniquenessException"
  by (induction k arbitrary: f) (auto simp: provider_def split: if_splits)

lemma names_loop_error:
  "names_loop n names seen g f = Inl e \<Longrightarrow> e = UniquenessException"
proof (induction n names seen g f rule: names_loop.induct)
  case (1 n names seen g f)
  show ?case
  proof (cases "length names < n")
    case False
    with "1.prems" show ?thesis
      by (simp add: names_loop.simps [of n names])
  next
    case True
    show ?thesis
    proof (cases "unique_company seen f")
      case (Inl e')
      then have "e' = UniquenessException"
        by (auto simp: unique_company_def split: sum.splits dest: unique_retry_error)
      with "1.prems" True Inl show ?thesis
        by (simp add: names_loop.simps [of n names])
    next
      case (Inr x)
      obtain c seen' f1 where x: "x = (c, seen', f1)" by (cases x) auto
      have ch: "choice name_suffixes g
                  = Inr (name_suffixes ! (g 0 mod length name_suffixes), advance 1 g)"
        by (rule choice_nonempty) (simp add: name_suffixes_def)
      from "1.prems" True Inr x ch have
        "names_loop n (set_add (c @ '' '' @ name_suffixes ! (g 0 mod length name_suffixes)) names)
           seen' (advance 1 g) f1 = Inl e"
        by (simp add: names_loop.simps [of n names])
      with "1.IH" [OF True Inr [unfolded x] refl refl ch refl] show ?thesis .
    qed
  qed
qed

lemma main_error: "main hash_order g f = Inl e \<Longrightarrow> e = UniquenessException"
proof (cases "unique_property_names 1000 hash_order g f")
  case (Inl e')
  assume "main hash_order g f = Inl e"
  with Inl have "e' = e" by (simp add: main_def)
  moreover from Inl have "e' = UniquenessException"
    by (auto simp: unique_property_names_def split: sum.splits dest: names_loop_error)
  ultimately show ?thesis by simp
next
  case (Inr x)
  assume a: "main hash_order g f = Inl e"
  obtain names g1 f1 where "x = (names, g1, f1)" by (cases x) auto
  with Inr main_returns [of hash_order g f names g1 f1] a show ?thesis by auto
qed

section \<open>The claims\<close>

text \<open>
  C1. The claim: for every fixed seed, two runs produce byte-identical output, the whole
  corpus being a function of the seeds 1234 given to \<^verbatim>\<open>random\<close> and to Faker. The script seeds
  both generators but then reads the names out of a set: with the answers of both
  generators held fixed, two enumeration orders of the name set give different output. The
  first record is named \<^verbatim>\<open>x Resort\<close> under one order and \<^verbatim>\<open>xx Resort\<close> under the other, so the
  corpus is not a function of the two seeds alone.
\<close>

theorem hash_order_changes_output:
  "field ''propertyName'' (hd (records_of (main [] demo_rng demo_faker)))
     = Some (JStr ''x Resort'')
   \<and> field ''propertyName'' (hd (records_of (main [Suc 0] demo_rng demo_faker)))
     = Some (JStr ''xx Resort'')
   \<and> main [] demo_rng demo_faker \<noteq> main [Suc 0] demo_rng demo_faker"
proof -
  let ?xs = "map (\<lambda>i. demo_faker i en_US @ '' '' @ name_suffixes ! (demo_rng i mod 8)) [0..<1000]"
  have ne: "list_of_set hash_order ?xs \<noteq> []" for hash_order
    using list_of_set_length [of hash_order ?xs] by auto
  have h0: "hd (list_of_set [] ?xs) = ''x Resort''"
    using demo_names_nth [of 0 demo_faker demo_rng]
    by (simp add: hd_conv_nth demo_faker_def demo_rng_def name_suffixes_def del: upt_Suc)
  have h1: "hd (list_of_set [Suc 0] ?xs) = ''xx Resort''"
    using demo_names_nth [of 1 demo_faker demo_rng] list_of_set_second [of ?xs]
    by (simp add: demo_faker_def demo_rng_def name_suffixes_def del: upt_Suc)
  have a: "field ''propertyName'' (hd (records_of (main [] demo_rng demo_faker)))
             = Some (JStr ''x Resort'')"
    using first_name_field [OF run_names(2) [where f = demo_faker and g = demo_rng
        and hash_order = "[]", OF demo_faker_distinct [of 1000]] ne]
    by (simp only: h0)
  have b: "field ''propertyName'' (hd (records_of (main [Suc 0] demo_rng demo_faker)))
             = Some (JStr ''xx Resort'')"
    using first_name_field
      [OF run_names(2) [where f = demo_faker and g = demo_rng and hash_order = "[Suc 0]",
        OF demo_faker_distinct [of 1000]] ne]
    by (simp only: h1)
  from a b have "main [] demo_rng demo_faker \<noteq> main [Suc 0] demo_rng demo_faker"
    by auto
  with a b show ?thesis by simp
qed




text \<open>
  C3 (amended). For every generated record, propertyPricePerNight lies in [75.00, 750.00];
  propertyCommissionAmount is the rounding to 2 decimal places of a value \<open>y\<close> in
  [0.10 * price, 0.20 * price], so it lies within 0.005 of that interval; both values
  are multiples of 0.01.
\<close>

theorem price_and_commission_ranges:
  assumes "main hash_order g f = Inr out" and "r \<in> set (records_of (main hash_order g f))"
  shows "\<exists>price commission y kp kc.
           field ''propertyPricePerNight'' r = Some (JFloat price)
         \<and> field ''propertyCommissionAmount'' r = Some (JFloat commission)
         \<and> 75 \<le> price \<and> price \<le> 750
         \<and> price = of_int kp / 100 \<and> commission = of_int kc / 100
         \<and> 1 / 10 * price \<le> y \<and> y \<le> 2 / 10 * price
         \<and> commission = round2 y
         \<and> 1 / 10 * price - 1 / 200 \<le> commission
         \<and> commission \<le> 2 / 10 * price + 1 / 200"
proof -
  from main_record_in [OF assms] obtain names j g0 f0 g' f' where
    mk: "make_record j names (unique_emails names) g0 f0 = Inr (r, g', f')"
    by blast
  define x where "x = 75 + 675 * (rat_of_nat (g0 4 mod 2 ^ 53) / 2 ^ 53)"
  define price where "price = round2 x"
  define y where "y = price * (1 / 10 + 1 / 10 * (rat_of_nat (g0 5 mod 2 ^ 53) / 2 ^ 53))"
  have p: "field ''propertyPricePerNight'' r = Some (JFloat price)"
    using record_fields(9) [OF mk] by (simp only: price_def x_def)
  have c: "field ''propertyCommissionAmount'' r = Some (JFloat (round2 y))"
    using record_fields(10) [OF mk] by (simp only: y_def price_def x_def)
  have pc: "75 \<le> price" "price \<le> 750" "1 / 10 * price \<le> y" "y \<le> 2 / 10 * price"
      "1 / 10 * price - 1 / 200 \<le> round2 y" "round2 y \<le> 2 / 10 * price + 1 / 200"
    unfolding y_def price_def x_def by (rule price_commission)+
  have kp: "price = of_int (round_half_even (x * 100)) / 100"
    unfolding price_def by (rule round2_cents)
  have kc: "round2 y = of_int (round_half_even (y * 100)) / 100"
    by (rule round2_cents)
  from p c pc kp kc show ?thesis
    by (intro exI [of _ price] exI [of _ "round2 y"] exI [of _ y]
          exI [of _ "round_half_even (x * 100)"] exI [of _ "round_half_even (y * 100)"] conjI refl)
qed

theorem price_and_commission_ranges_witness:
  "\<not> isl (main [] demo_rng demo_faker) \<and>
   field ''propertyPricePerNight'' (hd (records_of (main [] demo_rng demo_faker)))
     = Some (JFloat 75) \<and>
   field ''propertyCommissionAmount'' (hd (records_of (main [] demo_rng demo_faker)))
     = Some (JFloat (15 / 2)) \<and>
   (\<exists>price commission y kp kc.
           field ''propertyPricePerNight'' (hd (records_of (main [] demo_rng demo_faker)))
             = Some (JFloat price)
         \<and> field ''propertyCommissionAmount'' (hd (records_of (main [] demo_rng demo_faker)))
             = Some (JFloat commission)
         \<and> 75 \<le> price \<and> price \<le> 750
         \<and> price = of_int kp / 100 \<and> commission = of_int kc / 100
         \<and> 1 / 10 * price \<le> y \<and> y \<le> 2 / 10 * price
         \<and> commission = round2 y
         \<and> 1 / 10 * price - 1 / 200 \<le> commission
         \<and> commission \<le> 2 / 10 * price + 1 / 200)"
proof -
  obtain out where "main [] demo_rng demo_faker = Inr out" using demo_run by blast
  from price_and_commission_ranges [OF this demo_first_record] main_demo_returns
    demo_first_fields(5,6)
  show ?thesis by (intro conjI)
qed

text \<open>
  The claim as stated fails: when the price draw of the first record rounds to 75.03 and
  its commission draw is 0, the commission is round(7.503, 2) = 7.50, below
  0.10 * 75.03 = 7.503.
\<close>

theorem commission_below_tenth_counterexample:
  "field ''propertyPricePerNight'' (hd (records_of (main [] edge_rng demo_faker)))
     = Some (JFloat (7503 / 100))
   \<and> field ''propertyCommissionAmount'' (hd (records_of (main [] edge_rng demo_faker)))
     = Some (JFloat (750 / 100))
   \<and> (750 / 100 :: rat) < 1 / 10 * (7503 / 100)"
proof -
  have un: "unique_property_names 1000 [] edge_rng demo_faker =
      Inr (list_of_set []
             (map (\<lambda>i. demo_faker i en_US @ '' '' @ name_suffixes ! (edge_rng i mod 8)) [0..<1000]),
           advance 1000 edge_rng, advance 1000 demo_faker)"
    using demo_faker_distinct by (rule unique_property_names_run)
  from main_first_record [OF un] obtain names g' f' where
    mk: "make_record 0 names (unique_emails names) (advance 1000 edge_rng)
           (advance 1000 demo_faker)
         = Inr (hd (records_of (main [] edge_rng demo_faker)), g', f')"
    by blast
  have d4: "advance 1000 edge_rng 4 = 400320000000" and d5: "advance 1000 edge_rng 5 = 0"
    by (simp_all add: advance_apply edge_rng_def)
  have p: "field ''propertyPricePerNight'' (hd (records_of (main [] edge_rng demo_faker)))
             = Some (JFloat (7503 / 100))"
    using record_fields(9) [OF mk] by (simp only: d4 edge_price)
  have c: "field ''propertyCommissionAmount'' (hd (records_of (main [] edge_rng demo_faker)))
             = Some (JFloat (750 / 100))"
    using record_fields(10) [OF mk] by (simp only: d4 d5 edge_price edge_commission)
  have "(750 / 100 :: rat) < 1 / 10 * (7503 / 100)" by simp
  with p c show ?thesis by (intro conjI)
qed

text \<open>
  C4. For every generated record, the country is chosen first (by \<^verbatim>\<open>random.choice\<close> among the
  available countries: the first draw of the loop body) and propertyState is then a member
  of the subdivision list associated with that record's propertyCountry (chosen from it by
  the second draw): US states for USA, provinces and territories for Canada, Mexican
  states for Mexico.
\<close>

theorem state_belongs_to_country:
  assumes "main hash_order g f = Inr out" and "r \<in> set (records_of (main hash_order g f))"
  shows "\<exists>i names emails g0 f0 g' f' country states state.
           make_record i names emails g0 f0 = Inr (r, g', f')
         \<and> country = countries ! (g0 0 mod length countries)
         \<and> map_of countries_states country = Some states
         \<and> state = states ! (g0 1 mod length states)
         \<and> state \<in> set states
         \<and> field ''propertyCountry'' r = Some (JStr country)
         \<and> field ''propertyState'' r = Some (JStr state)
         \<and> map_of countries_states ''USA'' = Some us_states
         \<and> map_of countries_states ''Canada'' = Some canadian_provinces
         \<and> map_of countries_states ''Mexico'' = Some mexican_states"
proof -
  from main_record_in [OF assms] obtain names j g0 f0 g' f' where
    mk: "make_record j names (unique_emails names) g0 f0 = Inr (r, g', f')"
    by blast
  define k where "k = g0 0 mod 3"
  have k: "k < 3" by (simp add: k_def)
  define states where "states = snd (countries_states ! k)"
  have ne: "states \<noteq> []" using states_nonempty [OF k] by (simp add: states_def)
  then have mem: "states ! (g0 1 mod length states) \<in> set states" by simp
  have lk: "map_of countries_states (countries ! k) = Some states"
    using country_states_lookup [OF k] by (simp add: states_def)
  from mk lk mem record_fields(5,6) [OF mk] subdivision_lists show ?thesis
    unfolding k_def states_def length_countries by blast
qed

theorem state_belongs_to_country_witness:
  "\<not> isl (main [] demo_rng demo_faker) \<and>
   field ''propertyCountry'' (hd (records_of (main [] demo_rng demo_faker)))
     = Some (JStr ''USA'') \<and>
   field ''propertyState'' (hd (records_of (main [] demo_rng demo_faker)))
     = Some (JStr ''Alabama'') \<and>
   (\<exists>i names emails g0 f0 g' f' country states state.
           make_record i names emails g0 f0
             = Inr (hd (records_of (main [] demo_rng demo_faker)), g', f')
         \<and> country = countries ! (g0 0 mod length countries)
         \<and> map_of countries_states country = Some states
         \<and> state = states ! (g0 1 mod length states)
         \<and> state \<in> set states
         \<and> field ''propertyCountry'' (hd (records_of (main [] demo_rng demo_faker)))
              = Some (JStr country)
         \<and> field ''propertyState'' (hd (records_of (main [] demo_rng demo_faker)))
              = Some (JStr state)
         \<and> map_of countries_states ''USA'' = Some us_states
         \<and> map_of countries_states ''Canada'' = Some canadian_provinces
         \<and> map_of countries_states ''Mexico'' = Some mexican_states)"
proof -
  obtain out where "main [] demo_rng demo_faker = Inr out" using demo_run by blast
  from state_belongs_to_country [OF this demo_first_record] main_demo_returns
    demo_first_fields(2,3)
  show ?thesis by (intro conjI)
qed

text \<open>
  C5. Across the whole corpus of N = 1000 generated records, the id field takes exactly the
  values 1..N, sequentially in output order, with no gaps and no repeats: the record at
  position \<open>i\<close> (counted from 0) has id \<open>i + 1\<close>.
\<close>

theorem ids_sequential:
  assumes "main hash_order g f = Inr out"
  shows "map (field ''id'') (records_of (main hash_order g f))
           = map (\<lambda>i. Some (JInt (int i + 1))) [0..<1000]"
proof (rule nth_equalityI)
  from main_records [OF assms] show
    "length (map (field ''id'') (records_of (main hash_order g f)))
       = length (map (\<lambda>i. Some (JInt (int i + 1))) [0..<1000])"
    by auto
next
  fix j assume "j < length (map (field ''id'') (records_of (main hash_order g f)))"
  with main_records [OF assms] obtain names g0 f0 g' f' where
    j: "j < 1000" "j < length (records_of (main hash_order g f))" and
    mk: "make_record j names (unique_emails names) g0 f0
           = Inr (records_of (main hash_order g f) ! j, g', f')"
    by (metis length_map)
  from record_fields(1) [OF mk] j show
    "map (field ''id'') (records_of (main hash_order g f)) ! j
       = map (\<lambda>i. Some (JInt (int i + 1))) [0..<1000] ! j"
    by simp
qed

theorem ids_sequential_witness:
  "\<not> isl (main [] demo_rng demo_faker) \<and>
   map (field ''id'') (records_of (main [] demo_rng demo_faker))
     = map (\<lambda>i. Some (JInt (int i + 1))) [0..<1000]"
proof -
  obtain out where "main [] demo_rng demo_faker = Inr out" using demo_run by blast
  from ids_sequential [OF this] main_demo_returns show ?thesis by blast
qed

text \<open>
  C6. For every generated record, propertyEmailAddress equals the result of taking
  propertyName, lower-casing it, removing spaces, replacing \<^verbatim>\<open>&\<close> with \<^verbatim>\<open>and\<close>, removing
  \<^verbatim>\<open>-\<close> and \<^verbatim>\<open>,\<close>, prefixing \<^verbatim>\<open>info@\<close> and suffixing \<^verbatim>\<open>.com\<close>: re-deriving the email from the
  stored name, by the specification's rule or by the script's chain of replacements,
  reproduces the stored email exactly.
\<close>

theorem email_rederived_from_name:
  assumes "main hash_order g f = Inr out" and "r \<in> set (records_of (main hash_order g f))"
  shows "\<exists>name. field ''propertyName'' r = Some (JStr name)
           \<and> field ''propertyEmailAddress'' r = Some (JStr (derived_email name))
           \<and> derived_email name = ''info@'' @ email_slug name @ ''.com''"
proof -
  from main_record_in [OF assms] obtain names j g0 f0 g' f' where
    mk: "make_record j names (unique_emails names) g0 f0 = Inr (r, g', f')"
    by blast
  from record_fields(11) [OF mk] have "unique_emails names ! j = derived_email (names ! j)"
    by (simp add: nth_unique_emails derived_email_slug)
  with record_fields(2,7) [OF mk] show ?thesis
    by (simp add: derived_email_slug)
qed

theorem email_rederived_from_name_witness:
  "\<not> isl (main [] demo_rng demo_faker) \<and>
   field ''propertyName'' (hd (records_of (main [] demo_rng demo_faker)))
     = Some (JStr ''x Resort'') \<and>
   field ''propertyEmailAddress'' (hd (records_of (main [] demo_rng demo_faker)))
     = Some (JStr ''info@xresort.com'')"
proof -
  obtain out where "main [] demo_rng demo_faker = Inr out" using demo_run by blast
  from email_rederived_from_name [OF this demo_first_record] obtain name where
    n: "field ''propertyName'' (hd (records_of (main [] demo_rng demo_faker)))
          = Some (JStr name)" and
    e: "field ''propertyEmailAddress'' (hd (records_of (main [] demo_rng demo_faker)))
          = Some (JStr (derived_email name))"
    by blast
  from n demo_first_fields(1) have "name = ''x Resort''" by simp
  moreover have "derived_email ''x Resort'' = ''info@xresort.com''"
    by code_simp
  ultimately have "field ''propertyEmailAddress'' (hd (records_of (main [] demo_rng demo_faker)))
     = Some (JStr ''info@xresort.com'')"
    using e by simp
  with main_demo_returns demo_first_fields(1) show ?thesis by (intro conjI)
qed

text \<open>
  C7. The program's output is a single JSON object whose only top-level key is
  \<^verbatim>\<open>properties\<close>, holding the ordered list of exactly 1000 generated records, each of which
  contains exactly the 14 specified fields with correctly typed values (an integer id, two
  floats for price and commission, strings for the rest); the object is handed to
  \<^verbatim>\<open>json.dump\<close> for the one file \<^verbatim>\<open>propertyFiles.json\<close>.
\<close>

theorem output_document:
  assumes "main hash_order g f = Inr out"
  shows "\<exists>rs. out = (''propertyFiles.json'', JDict [(''properties'', JList rs)])
           \<and> length rs = 1000
           \<and> (\<forall>r\<in>set rs. \<exists>kvs. r = JDict kvs
                \<and> map fst kvs =
                    [''id'', ''propertyName'', ''propertyDescription'', ''propertyLocation'',
                     ''propertyCity'', ''propertyState'', ''propertyCountry'',
                     ''propertyAddress'', ''propertyPhoneNumber'', ''propertyEmailAddress'',
                     ''propertyAirportProximity'', ''propertyPricePerNight'',
                     ''propertyCommissionAmount'', ''propertyCancellationPenalty'']
                \<and> map (\<lambda>kv. json_type_of (snd kv)) kvs =
                    [TInteger, TString, TString, TString, TString, TString, TString, TString,
                     TString, TString, TString, TFloat, TFloat, TString])"
proof -
  from main_Inr [OF assms] obtain rs where
    out: "out = (''propertyFiles.json'', JDict [(''properties'', JList rs)])" and
    len: "length rs = 1000" by blast
  have rs: "records_of (main hash_order g f) = rs"
    using assms out by (simp add: records_of_Inr)
  have "\<exists>kvs. r = JDict kvs
           \<and> map fst kvs =
               [''id'', ''propertyName'', ''propertyDescription'', ''propertyLocation'',
                ''propertyCity'', ''propertyState'', ''propertyCountry'', ''propertyAddress'',
                ''propertyPhoneNumber'', ''propertyEmailAddress'', ''propertyAirportProximity'',
                ''propertyPricePerNight'', ''propertyCommissionAmount'',
                ''propertyCancellationPenalty'']
           \<and> map (\<lambda>kv. json_type_of (snd kv)) kvs =
               [TInteger, TString, TString, TString, TString, TString, TString, TString,
                TString, TString, TString, TFloat, TFloat, TString]"
    if "r \<in> set rs" for r
  proof -
    from that rs have "r \<in> set (records_of (main hash_order g f))" by simp
    from main_record_in [OF assms this] obtain names j g0 f0 g' f' where
      mk: "make_record j names (unique_emails names) g0 f0 = Inr (r, g', f')"
      by blast
    from mk show ?thesis by (rule record_keys_types)
  qed
  then show ?thesis
    using out len by (intro exI [of _ rs] conjI ballI)
qed

theorem output_document_witness:
  "\<exists>rs. main [] demo_rng demo_faker
           = Inr (''propertyFiles.json'', JDict [(''properties'', JList rs)])
         \<and> length rs = 1000
         \<and> (\<exists>kvs. hd rs = JDict kvs
                \<and> map fst kvs =
                    [''id'', ''propertyName'', ''propertyDescription'', ''propertyLocation'',
                     ''propertyCity'', ''propertyState'', ''propertyCountry'',
                     ''propertyAddress'', ''propertyPhoneNumber'', ''propertyEmailAddress'',
                     ''propertyAirportProximity'', ''propertyPricePerNight'',
                     ''propertyCommissionAmount'', ''propertyCancellationPenalty'']
                \<and> map (\<lambda>kv. json_type_of (snd kv)) kvs =
                    [TInteger, TString, TString, TString, TString, TString, TString, TString,
                     TString, TString, TString, TFloat, TFloat, TString])"
proof -
  obtain out where m: "main [] demo_rng demo_faker = Inr out" using demo_run by blast
  from output_document [OF m] obtain rs where
    o: "out = (''propertyFiles.json'', JDict [(''properties'', JList rs)])" and
    l: "length rs = 1000" and
    a: "\<forall>r\<in>set rs. \<exists>kvs. r = JDict kvs
                \<and> map fst kvs =
                    [''id'', ''propertyName'', ''propertyDescription'', ''propertyLocation'',
                     ''propertyCity'', ''propertyState'', ''propertyCountry'',
                     ''propertyAddress'', ''propertyPhoneNumber'', ''propertyEmailAddress'',
                     ''propertyAirportProximity'', ''propertyPricePerNight'',
                     ''propertyCommissionAmount'', ''propertyCancellationPenalty'']
                \<and> map (\<lambda>kv. json_type_of (snd kv)) kvs =
                    [TInteger, TString, TString, TString, TString, TString, TString, TString,
                     TString, TString, TString, TFloat, TFloat, TString]"
    by (elim exE conjE)
  from l have "hd rs \<in> set rs" by (cases rs) auto
  with a have h: "\<exists>kvs. hd rs = JDict kvs
                \<and> map fst kvs =
                    [''id'', ''propertyName'', ''propertyDescription'', ''propertyLocation'',
                     ''propertyCity'', ''propertyState'', ''propertyCountry'',
                     ''propertyAddress'', ''propertyPhoneNumber'', ''propertyEmailAddress'',
                     ''propertyAirportProximity'', ''propertyPricePerNight'',
                     ''propertyCommissionAmount'', ''propertyCancellationPenalty'']
                \<and> map (\<lambda>kv. json_type_of (snd kv)) kvs =
                    [TInteger, TString, TString, TString, TString, TString, TString, TString,
                     TString, TString, TString, TFloat, TFloat, TString]"
    by (rule bspec)
  from m o have "main [] demo_rng demo_faker
           = Inr (''propertyFiles.json'', JDict [(''properties'', JList rs)])" by simp
  with l h show ?thesis by (intro exI [of _ rs] conjI)
qed





text \<open>
  C10. Every generated record's propertyCountry is one of exactly the three values USA,
  Canada and Mexico, the keys of the country-to-subdivision table; no other country
  appears in the corpus.
\<close>

theorem country_is_a_table_key:
  assumes "main hash_order g f = Inr out" and "r \<in> set (records_of (main hash_order g f))"
  shows "\<exists>country. field ''propertyCountry'' r = Some (JStr country)
           \<and> country \<in> set (map fst countries_states)
           \<and> (country = ''USA'' \<or> country = ''Canada'' \<or> country = ''Mexico'')"
proof -
  from main_record_in [OF assms] obtain names j g0 f0 g' f' where
    mk: "make_record j names (unique_emails names) g0 f0 = Inr (r, g', f')"
    by blast
  have "g0 0 mod 3 < 3" by simp
  then have "countries ! (g0 0 mod 3) \<in> set countries"
    by (simp add: length_countries)
  with record_fields(6) [OF mk] show ?thesis
    by (auto simp: countries_def countries_states_def)
qed

theorem country_is_a_table_key_witness:
  "\<not> isl (main [] demo_rng demo_faker) \<and>
   field ''propertyCountry'' (hd (records_of (main [] demo_rng demo_faker)))
     = Some (JStr ''USA'') \<and>
   (\<exists>country. field ''propertyCountry'' (hd (records_of (main [] demo_rng demo_faker)))
        = Some (JStr country)
      \<and> country \<in> set (map fst countries_states)
      \<and> (country = ''USA'' \<or> country = ''Canada'' \<or> country = ''Mexico''))"
proof -
  obtain out where "main [] demo_rng demo_faker = Inr out" using demo_run by blast
  from country_is_a_table_key [OF this demo_first_record] main_demo_returns
    demo_first_fields(2)
  show ?thesis by (intro conjI)
qed

end
